theory Spec2Isabelle
  imports Complex_Main
begin

section \<open>Data model of \<open>adp_routing_logic.py\<close>\<close>

text \<open>
  The enumerations \<open>NMStatus\<close> and \<open>Domain\<close>, and the dataclasses \<open>NarrowModel\<close> and
  \<open>RoutingRequest\<close>. Python floats are modelled as \<open>real\<close>, Python ints as \<open>int\<close>,
  \<open>Optional[str]\<close> as \<open>string option\<close>. The field \<open>id\<close> of \<open>NarrowModel\<close> is called
  \<open>nm_id\<close> and the field \<open>domain\<close> of \<open>RoutingRequest\<close> is called \<open>request_domain\<close>,
  since the source's names are taken (by the identity function and by the field of
  \<open>NarrowModel\<close>).
\<close>

datatype NMStatus = HEALTHY | DEGRADED | UNAVAILABLE

datatype Domain = MEDICAL | CARDIOLOGY | CANCER | NEUROLOGY | AI_COMPLIANCE

fun domain_value :: "Domain \<Rightarrow> string" where
  "domain_value MEDICAL = ''medical''"
| "domain_value CARDIOLOGY = ''cardiology''"
| "domain_value CANCER = ''cancer''"
| "domain_value NEUROLOGY = ''neurology''"
| "domain_value AI_COMPLIANCE = ''ai_compliance''"

text \<open>The members of \<open>Domain\<close> in definition order, as \<open>for domain in Domain\<close> visits them.\<close>

definition all_domains :: "Domain list" where
  "all_domains = [MEDICAL, CARDIOLOGY, CANCER, NEUROLOGY, AI_COMPLIANCE]"

record NarrowModel =
  nm_id :: string
  domain :: Domain
  endpoint :: string
  capabilities :: "string list"
  weight :: real
  status :: NMStatus
  response_time_avg :: real
  accuracy_score :: real
  last_health_check :: real
  current_load :: int
  max_concurrent :: int

record RoutingRequest =
  message_id :: string
  request_domain :: Domain
  priority :: string
  preferred_nm_id :: "string option"
  require_validation :: bool

text \<open>
  The dictionary returned by \<open>route_request\<close>: the keys \<open>primary\<close>, \<open>validation\<close> and
  \<open>routing_method\<close> are always present, \<open>error\<close> and \<open>total_available\<close> only on some paths.
\<close>

record RoutingDecision =
  primary :: "string option"
  validation :: "string list"
  routing_method :: string
  error :: "string option"
  total_available :: "nat option"

record DomainStats =
  total :: nat
  healthy :: nat
  degraded :: nat
  unavailable :: nat

record RoutingStats =
  total_nms :: nat
  domains :: "(string \<times> DomainStats) list"
  overall_health :: real

text \<open>The exceptions the routing code can raise.\<close>

datatype py_error = KeyError | IndexError | ZeroDivisionError | OverflowError | ValueError

text \<open>
  The router reads the wall clock (\<open>time.time()\<close>) and the random generator
  (\<open>random.random()\<close>, \<open>random.uniform\<close>, \<open>random.choice\<close>). Both are outside the program,
  so they are an oracle: \<open>time_at w n\<close> is what the \<open>n\<close>-th read of the clock returns,
  \<open>random_at w n\<close> is the float in \<open>[0, 1)\<close> the \<open>n\<close>-th use of the generator yields, and
  \<open>randbelow_at w n\<close> is the integer it yields when that use asks for an index.
\<close>

record world =
  time_at :: "nat \<Rightarrow> real"
  random_at :: "nat \<Rightarrow> real"
  randbelow_at :: "nat \<Rightarrow> nat"

text \<open>
  The fields of \<open>ADPRouter\<close>, and the positions reached in the two oracle sequences.
  Every operation is a function from the state to its result and the state it leaves; an
  operation that can raise returns \<open>Inl\<close> of the exception, together with the state at the
  moment of the raise.
\<close>

record ADPRouter =
  nm_registry :: "string \<rightharpoonup> NarrowModel"
  domain_pools :: "Domain \<rightharpoonup> string list"
  round_robin_indices :: "Domain \<rightharpoonup> int"
  health_check_interval :: real
  clock_reads :: nat
  random_draws :: nat

definition ADPRouter_init :: ADPRouter where
  "ADPRouter_init =
     \<lparr>nm_registry = Map.empty, domain_pools = Map.empty, round_robin_indices = Map.empty,
      health_check_interval = 30, clock_reads = 0, random_draws = 0\<rparr>"

section \<open>Registry\<close>

definition register_nm :: "NarrowModel \<Rightarrow> ADPRouter \<Rightarrow> bool \<times> ADPRouter" where
  "register_nm nm r =
     (let r1 = r\<lparr>nm_registry := (nm_registry r)(nm_id nm \<mapsto> nm)\<rparr>;
          r2 = (case domain_pools r1 (domain nm) of
                  None \<Rightarrow> r1\<lparr>domain_pools := (domain_pools r1)(domain nm \<mapsto> []),
                            round_robin_indices := (round_robin_indices r1)(domain nm \<mapsto> 0)\<rparr>
                | Some _ \<Rightarrow> r1)
      in case domain_pools r2 (domain nm) of
           None \<Rightarrow> (True, r2)
         | Some pool \<Rightarrow>
             if nm_id nm \<notin> set pool
             then (True, r2\<lparr>domain_pools := (domain_pools r2)(domain nm \<mapsto> pool @ [nm_id nm])\<rparr>)
             else (True, r2))"

section \<open>Health evaluation\<close>

definition perform_health_check :: "world \<Rightarrow> string \<Rightarrow> ADPRouter \<Rightarrow> bool \<times> ADPRouter" where
  "perform_health_check w k r =
     (case nm_registry r k of
        None \<Rightarrow> (False, r)
      | Some nm \<Rightarrow>
          let current_time = time_at w (clock_reads r);
              is_healthy = (random_at w (random_draws r) > 0.05);
              st = (if is_healthy \<and> current_load nm < max_concurrent nm then HEALTHY
                    else if is_healthy \<and> current_load nm \<ge> max_concurrent nm then DEGRADED
                    else UNAVAILABLE);
              nm' = nm\<lparr>status := st, last_health_check := current_time\<rparr>
          in (st = HEALTHY,
              r\<lparr>nm_registry := (nm_registry r)(k \<mapsto> nm'),
                clock_reads := Suc (clock_reads r),
                random_draws := Suc (random_draws r)\<rparr>))"

text \<open>The body of the \<open>for\<close> loop of \<open>get_healthy_nms_in_domain\<close>, over the rest of the pool.\<close>

fun healthy_loop ::
  "world \<Rightarrow> string list \<Rightarrow> string list \<Rightarrow> ADPRouter \<Rightarrow> string list \<times> ADPRouter" where
  "healthy_loop w [] healthy_nms r = (healthy_nms, r)"
| "healthy_loop w (k # rest) healthy_nms r =
     (case nm_registry r k of
        None \<Rightarrow> healthy_loop w rest healthy_nms r
      | Some nm \<Rightarrow>
          let now = time_at w (clock_reads r);
              r1 = r\<lparr>clock_reads := Suc (clock_reads r)\<rparr>;
              r2 = (if now - last_health_check nm > health_check_interval r1
                    then snd (perform_health_check w k r1) else r1)
          in (case nm_registry r2 k of
                None \<Rightarrow> healthy_loop w rest healthy_nms r2
              | Some nm2 \<Rightarrow>
                  if status nm2 \<in> set [HEALTHY, DEGRADED]
                  then healthy_loop w rest (healthy_nms @ [k]) r2
                  else healthy_loop w rest healthy_nms r2))"

definition get_healthy_nms_in_domain ::
  "world \<Rightarrow> Domain \<Rightarrow> ADPRouter \<Rightarrow> string list \<times> ADPRouter" where
  "get_healthy_nms_in_domain w d r =
     (case domain_pools r d of
        None \<Rightarrow> ([], r)
      | Some pool \<Rightarrow> healthy_loop w pool [] r)"

section \<open>Selection algorithms\<close>

text \<open>
  \<open>a / b\<close> for two Python ints is the true division: it raises \<open>ZeroDivisionError\<close> when
  \<open>b\<close> is 0 and \<open>OverflowError\<close> when the quotient, rounded to the nearest double, lies
  beyond the largest one, that is when its magnitude reaches \<open>2 ^ 1024 - 2 ^ 970\<close>.
\<close>

definition float_overflow_bound :: real where
  "float_overflow_bound = 2 ^ 1024 - 2 ^ 970"

definition int_true_div :: "int \<Rightarrow> int \<Rightarrow> py_error + real" where
  "int_true_div a b =
     (if b = 0 then Inl ZeroDivisionError
      else if float_overflow_bound \<le> \<bar>real_of_int a / real_of_int b\<bar> then Inl OverflowError
      else Inr (real_of_int a / real_of_int b))"

text \<open>
  The weight of one candidate, lines 115 to 133. The only operation that can raise is the
  division \<open>nm.current_load / nm.max_concurrent\<close> of line 128.
\<close>

definition effective_weight :: "NarrowModel \<Rightarrow> py_error + real" where
  "effective_weight nm =
     (let w0 = weight nm;
          w1 = (if response_time_avg nm > 0
                then w0 * min 1 (1000 / response_time_avg nm) else w0);
          w2 = w1 * accuracy_score nm
      in case int_true_div (current_load nm) (max_concurrent nm) of
           Inl e \<Rightarrow> Inl e
         | Inr q \<Rightarrow>
             let load_factor = max (1 / 10) (1 - q);
                 w3 = w2 * load_factor;
                 w4 = (if status nm = DEGRADED then w3 * (1 / 2) else w3)
             in Inr w4)"

text \<open>The first loop of \<open>calculate_weighted_selection\<close>; \<open>nm_registry[nm_id]\<close> raises on a missing key.\<close>

fun weigh_candidates ::
  "(string \<rightharpoonup> NarrowModel) \<Rightarrow> string list \<Rightarrow> py_error + (string \<times> real) list" where
  "weigh_candidates reg [] = Inr []"
| "weigh_candidates reg (k # ks) =
     (case reg k of
        None \<Rightarrow> Inl KeyError
      | Some nm \<Rightarrow>
          (case effective_weight nm of
             Inl e \<Rightarrow> Inl e
           | Inr wt \<Rightarrow>
               (case weigh_candidates reg ks of
                  Inl e \<Rightarrow> Inl e
                | Inr rest \<Rightarrow> Inr ((k, wt) # rest))))"

text \<open>The second loop: the first candidate whose cumulative weight reaches the draw.\<close>

fun walk_cumulative :: "real \<Rightarrow> real \<Rightarrow> (string \<times> real) list \<Rightarrow> string option" where
  "walk_cumulative random_value cumulative [] = None"
| "walk_cumulative random_value cumulative ((k, wt) # rest) =
     (if random_value \<le> cumulative + wt then Some k
      else walk_cumulative random_value (cumulative + wt) rest)"

text \<open>
  \<open>random.choice(seq)\<close> returns \<open>seq[i]\<close> for an index \<open>i\<close> below \<open>len(seq)\<close> taken from the
  generator; \<open>random.uniform(a, b)\<close> is \<open>a + (b - a) * random()\<close>.
\<close>

definition random_choice :: "world \<Rightarrow> nat \<Rightarrow> 'a list \<Rightarrow> 'a" where
  "random_choice w n xs = xs ! (randbelow_at w n mod length xs)"

definition random_uniform :: "world \<Rightarrow> nat \<Rightarrow> real \<Rightarrow> real \<Rightarrow> real" where
  "random_uniform w n a b = a + (b - a) * random_at w n"

definition calculate_weighted_selection ::
  "world \<Rightarrow> string list \<Rightarrow> ADPRouter \<Rightarrow> (py_error + string option) \<times> ADPRouter" where
  "calculate_weighted_selection w nm_ids r =
     (if nm_ids = [] then (Inr None, r)
      else
        case weigh_candidates (nm_registry r) nm_ids of
          Inl e \<Rightarrow> (Inl e, r)
        | Inr weighted_candidates \<Rightarrow>
            let total_weight = sum_list (map snd weighted_candidates);
                r1 = r\<lparr>random_draws := Suc (random_draws r)\<rparr>
            in if total_weight = 0
               then (Inr (Some (random_choice w (random_draws r) nm_ids)), r1)
               else
                 let random_value = random_uniform w (random_draws r) 0 total_weight
                 in (case walk_cumulative random_value 0 weighted_candidates of
                       Some k \<Rightarrow> (Inr (Some k), r1)
                     | None \<Rightarrow> (Inr (Some (fst (last weighted_candidates))), r1)))"

text \<open>\<open>xs[i]\<close> for a Python int \<open>i\<close>: a negative index counts from the end.\<close>

definition py_index :: "'a list \<Rightarrow> int \<Rightarrow> py_error + 'a" where
  "py_index xs i =
     (if 0 \<le> i \<and> i < int (length xs) then Inr (xs ! nat i)
      else if i < 0 \<and> - int (length xs) \<le> i then Inr (xs ! nat (int (length xs) + i))
      else Inl IndexError)"

definition round_robin_selection ::
  "string list \<Rightarrow> Domain \<Rightarrow> ADPRouter \<Rightarrow> (py_error + string option) \<times> ADPRouter" where
  "round_robin_selection nm_ids d r =
     (if nm_ids = [] then (Inr None, r)
      else
        let stored = (case round_robin_indices r d of None \<Rightarrow> 0 | Some i \<Rightarrow> i);
            current_index = (if stored \<ge> int (length nm_ids) then 0 else stored)
        in case py_index nm_ids current_index of
             Inl e \<Rightarrow> (Inl e, r)
           | Inr selected_nm \<Rightarrow>
               (Inr (Some selected_nm),
                r\<lparr>round_robin_indices :=
                    (round_robin_indices r)(d \<mapsto> (current_index + 1) mod int (length nm_ids))\<rparr>))"

section \<open>Router\<close>

text \<open>
  The \<open>while\<close> loop of \<open>_select_validation_nms\<close>. \<open>candidates.remove(validator)\<close> removes
  the first occurrence and raises \<open>ValueError\<close> when there is none.
\<close>

function validation_loop ::
  "world \<Rightarrow> int \<Rightarrow> string list \<Rightarrow> string list \<Rightarrow> ADPRouter
     \<Rightarrow> (py_error + string list) \<times> ADPRouter" where
  "validation_loop w max_validators candidates validators r =
     (if int (length validators) < min max_validators (int (length candidates))
      then
        (case calculate_weighted_selection w candidates r of
           (Inl e, r1) \<Rightarrow> (Inl e, r1)
         | (Inr None, r1) \<Rightarrow> (Inr validators, r1)
         | (Inr (Some v), r1) \<Rightarrow>
             if v \<noteq> [] \<and> v \<notin> set validators
             then
               (if v \<in> set candidates
                then validation_loop w max_validators (remove1 v candidates) (validators @ [v]) r1
                else (Inl ValueError, r1))
             else (Inr validators, r1))
      else (Inr validators, r))"
  by pat_completeness auto
termination
  by (relation "measure (\<lambda>(w, m, c, v, r). nat (m - int (length v)))") auto

definition select_validation_nms ::
  "world \<Rightarrow> RoutingRequest \<Rightarrow> string option list \<Rightarrow> int \<Rightarrow> ADPRouter
     \<Rightarrow> (py_error + string list) \<times> ADPRouter" where
  "select_validation_nms w request exclude max_validators r =
     (case get_healthy_nms_in_domain w (request_domain request) r of
        (available_nms, r1) \<Rightarrow>
          let candidates = filter (\<lambda>k. Some k \<notin> set exclude) available_nms
          in if candidates = [] then (Inr [], r1)
             else validation_loop w max_validators candidates [] r1)"

text \<open>The default of the parameter \<open>max_validators\<close>.\<close>

definition max_validators_default :: int where
  "max_validators_default = 2"

text \<open>
  Lines 174 to 191 of \<open>route_request\<close>: the preferred worker. \<open>None\<close> means that the
  function goes on to line 193. The test \<open>request.preferred_nm_id and ...\<close> is false for
  \<open>None\<close> and for the empty string.
\<close>

definition route_preferred ::
  "world \<Rightarrow> RoutingRequest \<Rightarrow> ADPRouter
     \<Rightarrow> ((py_error + RoutingDecision) \<times> ADPRouter) option" where
  "route_preferred w request r =
     (case preferred_nm_id request of
        None \<Rightarrow> None
      | Some p \<Rightarrow>
          if p = [] then None
          else
            (case nm_registry r p of
               None \<Rightarrow> None
             | Some nm \<Rightarrow>
                 if status nm \<in> set [HEALTHY, DEGRADED]
                 then
                   (if require_validation request
                    then
                      (case select_validation_nms w request [Some p] max_validators_default r of
                         (Inl e, r1) \<Rightarrow> Some (Inl e, r1)
                       | (Inr backup_nms, r1) \<Rightarrow>
                           Some (Inr \<lparr>primary = Some p, validation = backup_nms,
                                      routing_method = ''preferred_with_validation'',
                                      error = None, total_available = None\<rparr>, r1))
                    else
                      Some (Inr \<lparr>primary = Some p, validation = [],
                                 routing_method = ''preferred_only'',
                                 error = None, total_available = None\<rparr>, r))
                 else None))"

text \<open>
  Lines 205 to 224: the primary worker and the tag of the strategy, by priority. In the
  \<open>high\<close> branch the list \<open>top_candidates\<close> holds what the two selections returned; an
  entry \<open>None\<close> would be looked up in the registry and raise.
\<close>

definition select_primary ::
  "world \<Rightarrow> RoutingRequest \<Rightarrow> string list \<Rightarrow> ADPRouter
     \<Rightarrow> (py_error + string option \<times> string) \<times> ADPRouter" where
  "select_primary w request available_nms r =
     (if priority request = ''urgent'' then
        (case calculate_weighted_selection w available_nms r of
           (Inl e, r1) \<Rightarrow> (Inl e, r1)
         | (Inr primary_nm, r1) \<Rightarrow> (Inr (primary_nm, ''weighted_urgent''), r1))
      else if priority request = ''high'' then
        (case round_robin_selection available_nms (request_domain request) r of
           (Inl e, r1) \<Rightarrow> (Inl e, r1)
         | (Inr rr_candidate, r1) \<Rightarrow>
             (case calculate_weighted_selection w available_nms r1 of
                (Inl e, r2) \<Rightarrow> (Inl e, r2)
              | (Inr weighted_candidate, r2) \<Rightarrow>
                  let top_candidates =
                        (if weighted_candidate \<noteq> rr_candidate
                         then [rr_candidate, weighted_candidate] else [rr_candidate])
                  in (case those top_candidates of
                        None \<Rightarrow> (Inl KeyError, r2)
                      | Some ids \<Rightarrow>
                          (case calculate_weighted_selection w ids r2 of
                             (Inl e, r3) \<Rightarrow> (Inl e, r3)
                           | (Inr primary_nm, r3) \<Rightarrow> (Inr (primary_nm, ''hybrid_high''), r3)))))
      else
        (case round_robin_selection available_nms (request_domain request) r of
           (Inl e, r1) \<Rightarrow> (Inl e, r1)
         | (Inr primary_nm, r1) \<Rightarrow> (Inr (primary_nm, ''round_robin_normal''), r1)))"

text \<open>
  Lines 231 to 237: the load of the primary and of the validation workers. The test
  \<open>if primary_nm\<close> is false for \<open>None\<close> and for the empty string; the subscript
  \<open>nm_registry[primary_nm]\<close> raises on a missing key, the loop over the validation workers
  skips one.
\<close>

definition increment_load :: "string \<Rightarrow> ADPRouter \<Rightarrow> ADPRouter" where
  "increment_load k r =
     (case nm_registry r k of
        None \<Rightarrow> r
      | Some nm \<Rightarrow>
          r\<lparr>nm_registry := (nm_registry r)(k \<mapsto> nm\<lparr>current_load := current_load nm + 1\<rparr>)\<rparr>)"

definition increment_primary :: "string option \<Rightarrow> ADPRouter \<Rightarrow> py_error + ADPRouter" where
  "increment_primary primary_nm r =
     (case primary_nm of
        None \<Rightarrow> Inr r
      | Some p \<Rightarrow>
          if p = [] then Inr r
          else
            (case nm_registry r p of
               None \<Rightarrow> Inl KeyError
             | Some nm \<Rightarrow> Inr (increment_load p r)))"

definition update_load ::
  "string option \<Rightarrow> string list \<Rightarrow> ADPRouter \<Rightarrow> (py_error + unit) \<times> ADPRouter" where
  "update_load primary_nm validation_nms r =
     (case increment_primary primary_nm r of
        Inl e \<Rightarrow> (Inl e, r)
      | Inr r1 \<Rightarrow> (Inr (), fold increment_load validation_nms r1))"

text \<open>Lines 193 to 244: routing inside the domain's pool.\<close>

definition route_in_domain ::
  "world \<Rightarrow> RoutingRequest \<Rightarrow> ADPRouter \<Rightarrow> (py_error + RoutingDecision) \<times> ADPRouter" where
  "route_in_domain w request r =
     (case get_healthy_nms_in_domain w (request_domain request) r of
        (available_nms, r1) \<Rightarrow>
          if available_nms = []
          then (Inr \<lparr>primary = None, validation = [],
                     routing_method = ''no_available_nms'',
                     error = Some (''No healthy NMs available in domain ''
                                   @ domain_value (request_domain request)),
                     total_available = None\<rparr>, r1)
          else
            (case select_primary w request available_nms r1 of
               (Inl e, r2) \<Rightarrow> (Inl e, r2)
             | (Inr (primary_nm, tag), r2) \<Rightarrow>
                 (case (if require_validation request
                        then select_validation_nms w request [primary_nm] max_validators_default r2
                        else (Inr [], r2)) of
                    (Inl e, r3) \<Rightarrow> (Inl e, r3)
                  | (Inr validation_nms, r3) \<Rightarrow>
                      (case update_load primary_nm validation_nms r3 of
                         (Inl e, r4) \<Rightarrow> (Inl e, r4)
                       | (Inr u, r4) \<Rightarrow>
                           (Inr \<lparr>primary = primary_nm, validation = validation_nms,
                                  routing_method = tag, error = None,
                                  total_available = Some (length available_nms)\<rparr>, r4)))))"

definition route_request ::
  "world \<Rightarrow> RoutingRequest \<Rightarrow> ADPRouter \<Rightarrow> (py_error + RoutingDecision) \<times> ADPRouter" where
  "route_request w request r =
     (case route_preferred w request r of
        Some res \<Rightarrow> res
      | None \<Rightarrow> route_in_domain w request r)"

definition complete_request :: "string \<Rightarrow> ADPRouter \<Rightarrow> unit \<times> ADPRouter" where
  "complete_request k r =
     (case nm_registry r k of
        None \<Rightarrow> ((), r)
      | Some nm \<Rightarrow>
          ((), r\<lparr>nm_registry :=
                   (nm_registry r)(k \<mapsto> nm\<lparr>current_load := max 0 (current_load nm - 1)\<rparr>)\<rparr>))"

section \<open>Statistics\<close>

definition count_status :: "ADPRouter \<Rightarrow> string list \<Rightarrow> NMStatus \<Rightarrow> nat" where
  "count_status r domain_nms s =
     length (filter (\<lambda>k. case nm_registry r k of None \<Rightarrow> False | Some nm \<Rightarrow> status nm = s)
               domain_nms)"

definition domain_stats :: "ADPRouter \<Rightarrow> Domain \<Rightarrow> DomainStats" where
  "domain_stats r d =
     (let domain_nms = (case domain_pools r d of None \<Rightarrow> [] | Some pool \<Rightarrow> pool)
      in \<lparr>total = length domain_nms,
          healthy = count_status r domain_nms HEALTHY,
          degraded = count_status r domain_nms DEGRADED,
          unavailable = count_status r domain_nms UNAVAILABLE\<rparr>)"

definition get_routing_stats :: "ADPRouter \<Rightarrow> RoutingStats \<times> ADPRouter" where
  "get_routing_stats r =
     (let per_domain = map (\<lambda>d. (domain_value d, domain_stats r d)) all_domains;
          healthy_count = sum_list (map (\<lambda>d. healthy (domain_stats r d)) all_domains);
          n = card (dom (nm_registry r))
      in (\<lparr>total_nms = n, domains = per_domain,
           overall_health = (if n > 0 then real healthy_count / real n else 0)\<rparr>, r))"

section \<open>Reachable states\<close>

text \<open>
  The states of a router that starts empty and is driven through its public methods.
  A call that raises leaves the state it had reached.
\<close>

inductive reachable :: "world \<Rightarrow> ADPRouter \<Rightarrow> bool" for w :: world where
  reach_init: "reachable w ADPRouter_init"
| reach_register: "reachable w r \<Longrightarrow> reachable w (snd (register_nm nm r))"
| reach_route: "reachable w r \<Longrightarrow> reachable w (snd (route_request w request r))"
| reach_complete: "reachable w r \<Longrightarrow> reachable w (snd (complete_request k r))"
| reach_stats: "reachable w r \<Longrightarrow> reachable w (snd (get_routing_stats r))"
| reach_health: "reachable w r \<Longrightarrow> reachable w (snd (perform_health_check w k r))"

section \<open>Views of the state\<close>

text \<open>The capacity of every registered worker, and the pool of a domain (empty when absent).\<close>

definition capacities :: "ADPRouter \<Rightarrow> string \<rightharpoonup> int" where
  "capacities r k = map_option max_concurrent (nm_registry r k)"

definition pool_of :: "ADPRouter \<Rightarrow> Domain \<Rightarrow> string list" where
  "pool_of r d = (case domain_pools r d of None \<Rightarrow> [] | Some pool \<Rightarrow> pool)"

text \<open>Every worker id in the pool of any domain is a key of the registry.\<close>

definition pools_registered :: "ADPRouter \<Rightarrow> bool" where
  "pools_registered r =
     list_all (\<lambda>d. list_all (\<lambda>k. nm_registry r k \<noteq> None) (pool_of r d)) all_domains"

text \<open>
  No stored cursor is negative; and the relation between two states in which every cursor
  either is unchanged or has been set to a non-negative value.
\<close>

definition cursors_nonneg :: "ADPRouter \<Rightarrow> bool" where
  "cursors_nonneg r =
     list_all (\<lambda>d. case round_robin_indices r d of None \<Rightarrow> True | Some i \<Rightarrow> 0 \<le> i) all_domains"

definition cursor_step :: "ADPRouter \<Rightarrow> ADPRouter \<Rightarrow> bool" where
  "cursor_step r r' =
     (\<forall>d. round_robin_indices r' d = round_robin_indices r d
          \<or> (\<exists>j\<ge>0. round_robin_indices r' d = Some j))"

text \<open>The load of every registered worker.\<close>

definition loads :: "ADPRouter \<Rightarrow> string \<rightharpoonup> int" where
  "loads r k = map_option current_load (nm_registry r k)"

text \<open>
  The quotient of line 128 can be computed for a worker: its capacity is not 0 and the
  quotient is within the float range. A worker id is weighable when it is registered to
  such a worker.
\<close>

definition load_ratio_defined :: "NarrowModel \<Rightarrow> bool" where
  "load_ratio_defined nm =
     (max_concurrent nm \<noteq> 0
      \<and> \<bar>real_of_int (current_load nm) / real_of_int (max_concurrent nm)\<bar> < float_overflow_bound)"

definition weighable :: "ADPRouter \<Rightarrow> string \<Rightarrow> bool" where
  "weighable r k = (case nm_registry r k of None \<Rightarrow> False | Some nm \<Rightarrow> load_ratio_defined nm)"


section \<open>Drivers and sample inputs\<close>

text \<open>
  A sequence of round-robin calls, each with its own candidate list and domain, as a client
  interleaving requests for several domains makes them.
\<close>

definition other_calls :: "(string list \<times> Domain) list \<Rightarrow> ADPRouter \<Rightarrow> ADPRouter" where
  "other_calls calls r = fold (\<lambda>(nm_ids, d) s. snd (round_robin_selection nm_ids d s)) calls r"

text \<open>
  A clock that stands still at 0, a generator that always yields one half, and whose
  \<open>n\<close>-th index draw is \<open>n\<close>.
\<close>

definition wA :: world where
  "wA = \<lparr>time_at = (\<lambda>n. 0), random_at = (\<lambda>n. 1 / 2), randbelow_at = (\<lambda>n. n)\<rparr>"

text \<open>A worker as the dataclass builds it from its defaults, with weight one half.\<close>

definition worker :: "string \<Rightarrow> Domain \<Rightarrow> NarrowModel" where
  "worker k d =
     \<lparr>nm_id = k, domain = d, endpoint = ''http://localhost'', capabilities = [],
      weight = 1 / 2, status = HEALTHY, response_time_avg = 0, accuracy_score = 9 / 10,
      last_health_check = 0, current_load = 0, max_concurrent = 10\<rparr>"



definition three_workers :: ADPRouter where
  "three_workers =
     snd (register_nm (worker ''c'' MEDICAL)
       (snd (register_nm (worker ''b'' MEDICAL)
         (snd (register_nm (worker ''a'' MEDICAL) ADPRouter_init)))))"

definition normal_request :: RoutingRequest where
  "normal_request =
     \<lparr>message_id = ''req-001'', request_domain = MEDICAL, priority = ''normal'',
      preferred_nm_id = None, require_validation = True\<rparr>"

text \<open>
  A worker registered as unavailable, a router that holds only that worker, a clock that
  stands at 100 (so that a worker last checked at 0 is due for a health check), and a
  request whose priority is none of the three the router knows.
\<close>

definition down_worker :: "string \<Rightarrow> Domain \<Rightarrow> NarrowModel" where
  "down_worker k d = (worker k d)\<lparr>status := UNAVAILABLE\<rparr>"

definition one_down :: ADPRouter where
  "one_down = snd (register_nm (down_worker ''a'' MEDICAL) ADPRouter_init)"

definition wLate :: world where
  "wLate = \<lparr>time_at = (\<lambda>n. 100), random_at = (\<lambda>n. 1 / 2), randbelow_at = (\<lambda>n. n)\<rparr>"

definition low_request :: RoutingRequest where
  "low_request = normal_request\<lparr>priority := ''low''\<rparr>"


definition mixed_capacity :: ADPRouter where
  "mixed_capacity =
     snd (register_nm ((worker ''b'' MEDICAL)\<lparr>max_concurrent := 0\<rparr>)
       (snd (register_nm (worker ''a'' MEDICAL) ADPRouter_init)))"

definition preferred_request :: RoutingRequest where
  "preferred_request = normal_request\<lparr>preferred_nm_id := Some ''a''\<rparr>"

definition preferred_only_request :: RoutingRequest where
  "preferred_only_request = preferred_request\<lparr>require_validation := False\<rparr>"

definition one_busy :: ADPRouter where
  "one_busy = snd (register_nm ((worker ''a'' MEDICAL)\<lparr>current_load := 1\<rparr>) ADPRouter_init)"

definition moved_worker :: ADPRouter where
  "moved_worker =
     snd (register_nm (worker ''a'' CARDIOLOGY)
       (snd (register_nm (worker ''a'' MEDICAL) ADPRouter_init)))"

section \<open>Facts about the selection algorithms\<close>

lemma weigh_candidates_fst:
  "weigh_candidates reg ks = Inr wc \<Longrightarrow> map fst wc = ks"
  by (induction ks arbitrary: wc) (auto split: option.splits sum.splits)

lemma float_overflow_bound_large: "1 < float_overflow_bound"
  by (simp add: float_overflow_bound_def)

lemma float_overflow_bound_small [simp]:
  "x \<le> 1 \<Longrightarrow> \<not> float_overflow_bound \<le> x"
  "x \<le> 1 \<Longrightarrow> x < float_overflow_bound"
  using float_overflow_bound_large by simp_all

lemma int_true_div_raises:
  "int_true_div 1 0 = Inl ZeroDivisionError"
  "int_true_div (2 ^ 1024) 1 = Inl OverflowError"
  "int_true_div 1 10 = Inr (1 / 10)"
  by (simp_all add: int_true_div_def float_overflow_bound_def)

lemma effective_weight_defined:
  "(\<exists>wt. effective_weight nm = Inr wt) \<longleftrightarrow> load_ratio_defined nm"
  by (auto simp: effective_weight_def int_true_div_def load_ratio_defined_def Let_def
      split: sum.splits if_splits)

lemma weighable_iff:
  "weighable r k \<longleftrightarrow> (\<exists>nm. nm_registry r k = Some nm \<and> load_ratio_defined nm)"
  by (simp add: weighable_def split: option.splits)

lemma weigh_candidates_defined:
  "(\<exists>wc. weigh_candidates (nm_registry r) ks = Inr wc) \<longleftrightarrow> (\<forall>k\<in>set ks. weighable r k)"
proof (induction ks)
  case Nil
  show ?case by simp
next
  case (Cons k ks)
  show ?case
  proof (cases "nm_registry r k")
    case None
    then show ?thesis by (simp add: weighable_def)
  next
    case (Some nm)
    show ?thesis
    proof (cases "effective_weight nm")
      case (Inl e)
      with effective_weight_defined [of nm] have "\<not> load_ratio_defined nm" by auto
      with Some Inl show ?thesis by (simp add: weighable_def)
    next
      case (Inr wt)
      with effective_weight_defined [of nm] have "load_ratio_defined nm" by auto
      with Some Inr Cons.IH show ?thesis
        by (auto simp: weighable_def split: sum.splits)
    qed
  qed
qed

lemma walk_cumulative_member:
  "walk_cumulative rv c wc = Some k \<Longrightarrow> k \<in> set (map fst wc)"
  by (induction rv c wc rule: walk_cumulative.induct) (auto split: if_splits)

lemma random_choice_member: "xs \<noteq> [] \<Longrightarrow> random_choice w n xs \<in> set xs"
  by (simp add: random_choice_def)

lemma calculate_weighted_selection_member:
  assumes "fst (calculate_weighted_selection w nm_ids r) = Inr (Some k)"
  shows "k \<in> set nm_ids"
proof -
  from assms have ne: "nm_ids \<noteq> []"
    by (auto simp: calculate_weighted_selection_def)
  from assms ne obtain wc where wc: "weigh_candidates (nm_registry r) nm_ids = Inr wc"
    by (auto simp: calculate_weighted_selection_def split: sum.splits)
  have fs: "map fst wc = nm_ids" by (rule weigh_candidates_fst [OF wc])
  with ne have wne: "wc \<noteq> []" by auto
  have "fst (last wc) \<in> set nm_ids"
    using fs wne by (metis last_in_set last_map list.map_disc_iff)
  moreover have "\<And>rv j. walk_cumulative rv 0 wc = Some j \<Longrightarrow> j \<in> set nm_ids"
    using walk_cumulative_member fs by metis
  ultimately show ?thesis
    using assms ne wc random_choice_member [OF ne]
    by (auto simp: calculate_weighted_selection_def Let_def split: if_splits option.splits)
qed



lemma calculate_weighted_selection_defined:
  assumes "\<forall>k\<in>set nm_ids. weighable r k"
  shows "\<exists>res. fst (calculate_weighted_selection w nm_ids r) = Inr res"
proof -
  from assms weigh_candidates_defined [of r nm_ids] obtain wc where
      "weigh_candidates (nm_registry r) nm_ids = Inr wc" by blast
  then show ?thesis
    by (auto simp: calculate_weighted_selection_def Let_def split: option.splits)
qed

lemma calculate_weighted_selection_frame [simp]:
  "nm_registry (snd (calculate_weighted_selection w nm_ids r)) = nm_registry r"
  "domain_pools (snd (calculate_weighted_selection w nm_ids r)) = domain_pools r"
  "round_robin_indices (snd (calculate_weighted_selection w nm_ids r)) = round_robin_indices r"
  "health_check_interval (snd (calculate_weighted_selection w nm_ids r)) = health_check_interval r"
  by (auto simp: calculate_weighted_selection_def Let_def split: option.splits sum.splits)


section \<open>Weighted selection\<close>

text \<open>
  C9: a candidate list of exactly one registered worker whose effective weight is defined
  and nonzero yields that worker, whatever the generator draws (the world \<open>w\<close> is arbitrary).
\<close>

theorem weighted_selection_single_candidate:
  assumes "nm_registry r k = Some nm" and "effective_weight nm = Inr wt" and "wt \<noteq> 0"
  shows "fst (calculate_weighted_selection w [k] r) = Inr (Some k)"
  using assms by (auto simp: calculate_weighted_selection_def Let_def split: option.splits)

theorem weighted_selection_single_candidate_witness:
  "nm_registry (snd (register_nm (worker ''a'' MEDICAL) ADPRouter_init)) ''a''
     = Some (worker ''a'' MEDICAL)
   \<and> effective_weight (worker ''a'' MEDICAL) = Inr (9 / 20)
   \<and> fst (calculate_weighted_selection wA [''a'']
            (snd (register_nm (worker ''a'' MEDICAL) ADPRouter_init))) = Inr (Some ''a'')"
proof -
  have a: "nm_registry (snd (register_nm (worker ''a'' MEDICAL) ADPRouter_init)) ''a''
             = Some (worker ''a'' MEDICAL)"
    by (simp add: register_nm_def ADPRouter_init_def worker_def)
  have b: "effective_weight (worker ''a'' MEDICAL) = Inr (9 / 20)"
    by (simp add: effective_weight_def int_true_div_def worker_def)
  have c: "(9 / 20 :: real) \<noteq> 0" by simp
  from weighted_selection_single_candidate [OF a b c] a b show ?thesis by simp
qed







section \<open>Round-robin selection\<close>

lemma round_robin_selection_other_domain:
  "d' \<noteq> d \<Longrightarrow>
   round_robin_indices (snd (round_robin_selection nm_ids d' r)) d = round_robin_indices r d"
  by (auto simp: round_robin_selection_def Let_def split: sum.splits)

lemma other_calls_cursor:
  "\<forall>c\<in>set calls. snd c \<noteq> d \<Longrightarrow>
   round_robin_indices (other_calls calls r) d = round_robin_indices r d"
  unfolding other_calls_def
  by (induction calls arbitrary: r) (auto simp: round_robin_selection_other_domain)

lemma round_robin_selection_step:
  assumes "nm_ids \<noteq> []"
    and "c = (case round_robin_indices r d of None \<Rightarrow> 0 | Some i \<Rightarrow> i)"
    and "0 \<le> c"
    and "pos = (if int (length nm_ids) \<le> c then 0 else nat c)"
  shows "round_robin_selection nm_ids d r =
           (Inr (Some (nm_ids ! pos)),
            r\<lparr>round_robin_indices :=
                (round_robin_indices r)(d \<mapsto> (int pos + 1) mod int (length nm_ids))\<rparr>)"
  using assms
  by (auto simp: round_robin_selection_def py_index_def Let_def)


text \<open>
  C4: on a non-empty candidate list, \<open>round_robin_selection\<close> returns the candidate at the
  stored cursor of the domain (at 0 when the cursor is at or beyond the length of the list)
  and stores the successor of that position modulo the length. A call for another domain
  leaves the cursor of this domain as it is. Hence, from a fresh cursor (absent, or 0 as
  \<open>register_nm\<close> sets it), the candidates \<open>[A, B, C]\<close> come out as A, B, C, A, whatever calls
  for other domains run in between. The stored cursor is taken to be non-negative, as it
  is in every reachable state (\<open>reachable_cursors_nonneg\<close> below).
\<close>

theorem round_robin_cycles:
  assumes "nm_ids \<noteq> []"
    and "c = (case round_robin_indices r d of None \<Rightarrow> 0 | Some i \<Rightarrow> i)"
    and "0 \<le> c"
    and "pos = (if int (length nm_ids) \<le> c then 0 else nat c)"
    and "round_robin_indices s d = None \<or> round_robin_indices s d = Some 0"
    and "\<forall>call\<in>set (calls1 @ calls2 @ calls3). snd call \<noteq> d"
    and "s1 = other_calls calls1 (snd (round_robin_selection [A, B, C] d s))"
    and "s2 = other_calls calls2 (snd (round_robin_selection [A, B, C] d s1))"
    and "s3 = other_calls calls3 (snd (round_robin_selection [A, B, C] d s2))"
  shows "round_robin_selection nm_ids d r =
           (Inr (Some (nm_ids ! pos)),
            r\<lparr>round_robin_indices :=
                (round_robin_indices r)(d \<mapsto> (int pos + 1) mod int (length nm_ids))\<rparr>)
         \<and> (d' \<noteq> d \<longrightarrow>
              round_robin_indices (snd (round_robin_selection ids' d' r)) d
                = round_robin_indices r d)
         \<and> fst (round_robin_selection [A, B, C] d s) = Inr (Some A)
         \<and> fst (round_robin_selection [A, B, C] d s1) = Inr (Some B)
         \<and> fst (round_robin_selection [A, B, C] d s2) = Inr (Some C)
         \<and> fst (round_robin_selection [A, B, C] d s3) = Inr (Some A)"
proof -
  have o1: "\<forall>c\<in>set calls1. snd c \<noteq> d" and o2: "\<forall>c\<in>set calls2. snd c \<noteq> d"
    and o3: "\<forall>c\<in>set calls3. snd c \<noteq> d"
    using assms(6) by auto
  have s0: "fst (round_robin_selection [A, B, C] d s) = Inr (Some A)"
       "round_robin_indices (snd (round_robin_selection [A, B, C] d s)) d = Some 1"
    using assms(5) by (auto simp: round_robin_selection_def py_index_def)
  have c1: "round_robin_indices s1 d = Some 1"
    using other_calls_cursor [OF o1] s0 assms(7) by simp
  have t1: "fst (round_robin_selection [A, B, C] d s1) = Inr (Some B)"
       "round_robin_indices (snd (round_robin_selection [A, B, C] d s1)) d = Some 2"
    using c1 by (simp_all add: round_robin_selection_def py_index_def)
  have c2: "round_robin_indices s2 d = Some 2"
    using other_calls_cursor [OF o2] t1 assms(8) by simp
  have t2: "fst (round_robin_selection [A, B, C] d s2) = Inr (Some C)"
       "round_robin_indices (snd (round_robin_selection [A, B, C] d s2)) d = Some 0"
    using c2 by (simp_all add: round_robin_selection_def py_index_def)
  have c3: "round_robin_indices s3 d = Some 0"
    using other_calls_cursor [OF o3] t2 assms(9) by simp
  have t3: "fst (round_robin_selection [A, B, C] d s3) = Inr (Some A)"
    using c3 by (simp add: round_robin_selection_def py_index_def)
  show ?thesis
    using round_robin_selection_step [OF assms(1-4)]
      round_robin_selection_other_domain [of d' d ids' r] s0(1) t1(1) t2(1) t3
    by simp
qed

theorem round_robin_cycles_witness:
  "fst (round_robin_selection [''A'', ''B'', ''C''] MEDICAL
          (other_calls [([''X'', ''Y''], CANCER)]
            (snd (round_robin_selection [''A'', ''B'', ''C''] MEDICAL
              (snd (round_robin_selection [''A'', ''B'', ''C''] MEDICAL
                (other_calls [([''X''], CARDIOLOGY), ([''X'', ''Y''], CANCER)]
                  (snd (round_robin_selection [''A'', ''B'', ''C''] MEDICAL
                         ADPRouter_init))))))))) = Inr (Some ''A'')
   \<and> fst (round_robin_selection [''A'', ''B'']  MEDICAL
            (snd (register_nm (worker ''A'' MEDICAL) ADPRouter_init))) = Inr (Some ''A'')"
proof -
  let ?r = "snd (register_nm (worker ''A'' MEDICAL) ADPRouter_init)"
  have h1: "[''A'', ''B''] \<noteq> ([] :: string list)" by simp
  have h2: "(0::int) = (case round_robin_indices ?r MEDICAL of None \<Rightarrow> 0 | Some i \<Rightarrow> i)"
    by (simp add: register_nm_def ADPRouter_init_def worker_def)
  have h3: "(0::int) \<le> 0" by simp
  have h4: "(0::nat) = (if int (length [''A'', ''B'']) \<le> 0 then 0 else nat 0)" by simp
  have h5: "round_robin_indices ADPRouter_init MEDICAL = None
            \<or> round_robin_indices ADPRouter_init MEDICAL = Some 0"
    by (simp add: ADPRouter_init_def)
  have h6: "\<forall>call\<in>set ([([''X''], CARDIOLOGY), ([''X'', ''Y''], CANCER)] @ []
                          @ [([''X'', ''Y''], CANCER)]). snd call \<noteq> MEDICAL"
    by simp
  from round_robin_cycles [OF h1 h2 h3 h4 h5 h6 refl refl refl, where
        A = "''A''" and B = "''B''" and C = "''C''"]
  show ?thesis by (simp add: other_calls_def)
qed

section \<open>What the operations leave unchanged\<close>

lemma capacities_None: "capacities r k = None \<longleftrightarrow> nm_registry r k = None"
  by (simp add: capacities_def)

lemma capacities_dom: "capacities r' = capacities r \<Longrightarrow> dom (nm_registry r') = dom (nm_registry r)"
proof -
  assume "capacities r' = capacities r"
  then have "\<And>k. capacities r' k = None \<longleftrightarrow> capacities r k = None" by simp
  then show ?thesis unfolding capacities_None by (auto simp: dom_def)
qed

lemma perform_health_check_frame [simp]:
  "domain_pools (snd (perform_health_check w k r)) = domain_pools r"
  "round_robin_indices (snd (perform_health_check w k r)) = round_robin_indices r"
  "health_check_interval (snd (perform_health_check w k r)) = health_check_interval r"
  "capacities (snd (perform_health_check w k r)) = capacities r"
  by (auto simp: perform_health_check_def Let_def capacities_def fun_eq_iff split: option.splits)

lemma healthy_loop_frame [simp]:
  "domain_pools (snd (healthy_loop w ks acc r)) = domain_pools r"
  "round_robin_indices (snd (healthy_loop w ks acc r)) = round_robin_indices r"
  "health_check_interval (snd (healthy_loop w ks acc r)) = health_check_interval r"
  "capacities (snd (healthy_loop w ks acc r)) = capacities r"
proof (induction ks arbitrary: acc r)
  case Nil
  {
    case 1 show ?case by simp
  next
    case 2 show ?case by simp
  next
    case 3 show ?case by simp
  next
    case 4 show ?case by simp
  }
next
  case (Cons k ks)
  have c: "\<And>r. capacities (r\<lparr>clock_reads := Suc (clock_reads r)\<rparr>) = capacities r"
    by (simp add: capacities_def fun_eq_iff)
  {
    case 1 show ?case by (simp add: Let_def Cons.IH split: option.splits)
  next
    case 2 show ?case by (simp add: Let_def Cons.IH split: option.splits)
  next
    case 3 show ?case by (simp add: Let_def Cons.IH split: option.splits)
  next
    case 4 show ?case by (simp add: Let_def Cons.IH c split: option.splits)
  }
qed

lemma get_healthy_nms_in_domain_frame [simp]:
  "domain_pools (snd (get_healthy_nms_in_domain w d r)) = domain_pools r"
  "round_robin_indices (snd (get_healthy_nms_in_domain w d r)) = round_robin_indices r"
  "health_check_interval (snd (get_healthy_nms_in_domain w d r)) = health_check_interval r"
  "capacities (snd (get_healthy_nms_in_domain w d r)) = capacities r"
  by (simp_all add: get_healthy_nms_in_domain_def split: option.splits)

lemma healthy_loop_Cons_Some:
  assumes "nm_registry r k = Some nm"
  obtains r2 nm2 where "capacities r2 = capacities r" and "nm_registry r2 k = Some nm2"
    and "healthy_loop w (k # ks) acc r =
           healthy_loop w ks (if status nm2 = HEALTHY \<or> status nm2 = DEGRADED
                              then acc @ [k] else acc) r2"
proof -
  define r1 where "r1 = r\<lparr>clock_reads := Suc (clock_reads r)\<rparr>"
  define r2 where "r2 = (if time_at w (clock_reads r) - last_health_check nm
                              > health_check_interval r1
                         then snd (perform_health_check w k r1) else r1)"
  have c1: "capacities r1 = capacities r"
    by (simp add: capacities_def fun_eq_iff r1_def)
  have c2: "capacities r2 = capacities r"
    using c1 by (simp add: r2_def)
  from assms have "capacities r k \<noteq> None" by (simp add: capacities_def)
  with c2 have "nm_registry r2 k \<noteq> None" by (simp add: capacities_None [symmetric])
  then obtain nm2 where nm2: "nm_registry r2 k = Some nm2" by auto
  have "healthy_loop w (k # ks) acc r =
          healthy_loop w ks (if status nm2 = HEALTHY \<or> status nm2 = DEGRADED
                             then acc @ [k] else acc) r2"
    using assms nm2 by (simp add: Let_def r1_def [symmetric] r2_def [symmetric])
  with c2 nm2 show thesis by (rule that)
qed

lemma healthy_loop_result:
  "set (fst (healthy_loop w ks acc r)) \<subseteq> set acc \<union> (set ks \<inter> dom (nm_registry r))"
proof (induction ks arbitrary: acc r)
  case Nil
  show ?case by simp
next
  case (Cons k ks)
  show ?case
  proof (cases "nm_registry r k")
    case None
    then show ?thesis using Cons.IH [of acc r] by auto
  next
    case (Some nm)
    from healthy_loop_Cons_Some [OF Some, of w ks acc] obtain r2 nm2 where
        c: "capacities r2 = capacities r" and "nm_registry r2 k = Some nm2"
        and step: "healthy_loop w (k # ks) acc r =
                     healthy_loop w ks (if status nm2 = HEALTHY \<or> status nm2 = DEGRADED
                                        then acc @ [k] else acc) r2"
      by blast
    have d: "dom (nm_registry r2) = dom (nm_registry r)" by (rule capacities_dom [OF c])
    show ?thesis
      unfolding step
      using Cons.IH [of "if status nm2 = HEALTHY \<or> status nm2 = DEGRADED then acc @ [k] else acc" r2]
        Some d
      by (auto split: if_splits)
  qed
qed

lemma get_healthy_nms_in_domain_result:
  "set (fst (get_healthy_nms_in_domain w d r)) \<subseteq> set (pool_of r d) \<inter> dom (nm_registry r)"
  using healthy_loop_result [of w _ "[]" r]
  by (auto simp: get_healthy_nms_in_domain_def pool_of_def split: option.splits)

declare validation_loop.simps [simp del]

lemma validation_loop_frame [simp]:
  "nm_registry (snd (validation_loop w m cs vs r)) = nm_registry r
   \<and> domain_pools (snd (validation_loop w m cs vs r)) = domain_pools r
   \<and> round_robin_indices (snd (validation_loop w m cs vs r)) = round_robin_indices r
   \<and> health_check_interval (snd (validation_loop w m cs vs r)) = health_check_interval r"
proof (induction w m cs vs r rule: validation_loop.induct)
  case (1 w m cs vs r)
  obtain res r1 where sel: "calculate_weighted_selection w cs r = (res, r1)"
    by (cases "calculate_weighted_selection w cs r")
  have r1: "nm_registry r1 = nm_registry r" "domain_pools r1 = domain_pools r"
    "round_robin_indices r1 = round_robin_indices r"
    "health_check_interval r1 = health_check_interval r"
    using calculate_weighted_selection_frame [of w cs r] sel by simp_all
  show ?case
    using "1.IH" [OF _ sel [symmetric]] r1
    by (subst (1 2 3 4) validation_loop.simps) (auto simp: sel split: sum.splits option.splits)
qed

lemma validation_loop_result:
  assumes "fst (validation_loop w m cs vs r) = Inr out" and "distinct vs"
  shows "distinct out \<and> set out \<subseteq> set vs \<union> set cs \<and> int (length out) \<le> max m (int (length vs))"
  using assms
proof (induction w m cs vs r rule: validation_loop.induct)
  case (1 w m cs vs r)
  obtain res r1 where sel: "calculate_weighted_selection w cs r = (res, r1)"
    by (cases "calculate_weighted_selection w cs r")
  show ?case
  proof (cases "int (length vs) < min m (int (length cs))")
    case False
    with "1.prems" show ?thesis by (subst (asm) validation_loop.simps) auto
  next
    case True
    note run = True
    show ?thesis
    proof (cases res)
      case (Inl e)
      with "1.prems" run sel show ?thesis by (subst (asm) validation_loop.simps) auto
    next
      case (Inr b)
      show ?thesis
      proof (cases b)
        case None
        with "1.prems" run sel Inr show ?thesis by (subst (asm) validation_loop.simps) auto
      next
        case (Some v)
        show ?thesis
        proof (cases "v \<noteq> [] \<and> v \<notin> set vs")
          case False
          with "1.prems" run sel Inr Some show ?thesis
            by (subst (asm) validation_loop.simps) auto
        next
          case True
          note fresh = True
          show ?thesis
          proof (cases "v \<in> set cs")
            case False
            with "1.prems" run sel Inr Some fresh show ?thesis
              by (subst (asm) validation_loop.simps) auto
          next
            case True
            have next_run: "fst (validation_loop w m (remove1 v cs) (vs @ [v]) r1) = Inr out"
              using "1.prems"(1) run sel Inr Some fresh True
              by (subst (asm) validation_loop.simps) auto
            have d: "distinct (vs @ [v])" using "1.prems"(2) fresh by simp
            from "1.IH" [OF run sel [symmetric] Inr Some fresh True next_run d]
            have "distinct out" and "set out \<subseteq> set (vs @ [v]) \<union> set (remove1 v cs)"
              and "int (length out) \<le> max m (int (length (vs @ [v])))"
              by auto
            moreover have "set (remove1 v cs) \<subseteq> set cs" by (rule set_remove1_subset)
            moreover have "int (length (vs @ [v])) \<le> m" using run by simp
            ultimately show ?thesis using True by auto
          qed
        qed
      qed
    qed
  qed
qed

lemma round_robin_selection_frame [simp]:
  "nm_registry (snd (round_robin_selection nm_ids d r)) = nm_registry r"
  "domain_pools (snd (round_robin_selection nm_ids d r)) = domain_pools r"
  "health_check_interval (snd (round_robin_selection nm_ids d r)) = health_check_interval r"
  by (auto simp: round_robin_selection_def Let_def split: sum.splits)

lemma selection_capacities [simp]:
  "capacities (snd (calculate_weighted_selection w nm_ids r)) = capacities r"
  "capacities (snd (round_robin_selection nm_ids d r)) = capacities r"
  "capacities (snd (validation_loop w m cs vs r)) = capacities r"
  by (simp_all add: capacities_def fun_eq_iff)

lemma select_validation_nms_frame [simp]:
  "domain_pools (snd (select_validation_nms w request exclude m r)) = domain_pools r"
  "round_robin_indices (snd (select_validation_nms w request exclude m r)) = round_robin_indices r"
  "health_check_interval (snd (select_validation_nms w request exclude m r)) = health_check_interval r"
  "capacities (snd (select_validation_nms w request exclude m r)) = capacities r"
  by (simp_all add: select_validation_nms_def Let_def case_prod_beta)

lemma select_validation_nms_result:
  assumes "fst (select_validation_nms w request exclude m r) = Inr out"
  shows "distinct out \<and> (\<forall>k\<in>set out. Some k \<notin> set exclude)
         \<and> int (length out) \<le> max m 0
         \<and> set out \<subseteq> set (pool_of r (request_domain request)) \<inter> dom (nm_registry r)"
proof -
  obtain av r1 where g: "get_healthy_nms_in_domain w (request_domain request) r = (av, r1)"
    by (cases "get_healthy_nms_in_domain w (request_domain request) r")
  have av: "set av \<subseteq> set (pool_of r (request_domain request)) \<inter> dom (nm_registry r)"
    using get_healthy_nms_in_domain_result [of w "request_domain request" r] g by simp
  let ?cs = "filter (\<lambda>k. Some k \<notin> set exclude) av"
  show ?thesis
  proof (cases "?cs = []")
    case True
    with assms g show ?thesis by (simp add: select_validation_nms_def)
  next
    case False
    with assms g have "fst (validation_loop w m ?cs [] r1) = Inr out"
      by (simp add: select_validation_nms_def)
    from validation_loop_result [OF this] have "distinct out" "set out \<subseteq> set ?cs"
      "int (length out) \<le> max m 0" by auto
    with av show ?thesis by auto
  qed
qed

lemma increment_load_frame [simp]:
  "domain_pools (increment_load k r) = domain_pools r"
  "round_robin_indices (increment_load k r) = round_robin_indices r"
  "health_check_interval (increment_load k r) = health_check_interval r"
  "capacities (increment_load k r) = capacities r"
  by (auto simp: increment_load_def capacities_def fun_eq_iff split: option.splits)

lemma fold_increment_load_frame [simp]:
  "domain_pools (fold increment_load ks r) = domain_pools r"
  "round_robin_indices (fold increment_load ks r) = round_robin_indices r"
  "health_check_interval (fold increment_load ks r) = health_check_interval r"
  "capacities (fold increment_load ks r) = capacities r"
  by (induction ks arbitrary: r) simp_all

lemma update_load_frame [simp]:
  "domain_pools (snd (update_load p vs r)) = domain_pools r"
  "round_robin_indices (snd (update_load p vs r)) = round_robin_indices r"
  "health_check_interval (snd (update_load p vs r)) = health_check_interval r"
  "capacities (snd (update_load p vs r)) = capacities r"
  by (auto simp: update_load_def increment_primary_def split: sum.splits option.splits)

lemma select_primary_frame [simp]:
  "nm_registry (snd (select_primary w request av r)) = nm_registry r"
  "domain_pools (snd (select_primary w request av r)) = domain_pools r"
  "health_check_interval (snd (select_primary w request av r)) = health_check_interval r"
  by (simp_all add: select_primary_def Let_def case_prod_beta split: sum.splits option.splits)

lemma route_preferred_frame:
  assumes "route_preferred w request r = Some res"
  shows "domain_pools (snd res) = domain_pools r \<and> capacities (snd res) = capacities r
         \<and> health_check_interval (snd res) = health_check_interval r
         \<and> round_robin_indices (snd res) = round_robin_indices r"
proof -
  let ?sel = "\<lambda>p. select_validation_nms w request [Some p] max_validators_default r"
  have "\<exists>p. res = (fst res, r) \<or> res = (fst res, snd (?sel p))"
    using assms
    by (auto simp: route_preferred_def case_prod_beta
        split: option.splits if_splits sum.splits)
  then show ?thesis by (metis select_validation_nms_frame snd_conv)
qed

lemma route_in_domain_frame [simp]:
  "domain_pools (snd (route_in_domain w request r)) = domain_pools r"
  "capacities (snd (route_in_domain w request r)) = capacities r"
  "health_check_interval (snd (route_in_domain w request r)) = health_check_interval r"
proof -
  have c: "\<And>av s. capacities (snd (select_primary w request av s)) = capacities s"
    by (simp add: capacities_def fun_eq_iff)
  show "domain_pools (snd (route_in_domain w request r)) = domain_pools r"
    by (simp add: route_in_domain_def case_prod_beta split: sum.splits)
  show "capacities (snd (route_in_domain w request r)) = capacities r"
    by (simp add: route_in_domain_def case_prod_beta c split: sum.splits)
  show "health_check_interval (snd (route_in_domain w request r)) = health_check_interval r"
    by (simp add: route_in_domain_def case_prod_beta split: sum.splits)
qed

lemma route_request_frame [simp]:
  "domain_pools (snd (route_request w request r)) = domain_pools r"
  "capacities (snd (route_request w request r)) = capacities r"
  "health_check_interval (snd (route_request w request r)) = health_check_interval r"
  using route_preferred_frame [of w request r]
  by (auto simp: route_request_def split: option.splits)

lemma complete_request_frame [simp]:
  "domain_pools (snd (complete_request k r)) = domain_pools r"
  "round_robin_indices (snd (complete_request k r)) = round_robin_indices r"
  "health_check_interval (snd (complete_request k r)) = health_check_interval r"
  "capacities (snd (complete_request k r)) = capacities r"
  by (auto simp: complete_request_def capacities_def fun_eq_iff split: option.splits)

lemma get_routing_stats_state [simp]: "snd (get_routing_stats r) = r"
  by (simp add: get_routing_stats_def Let_def)

lemma perform_health_check_loads [simp]:
  "loads (snd (perform_health_check w k r)) = loads r"
  by (auto simp: perform_health_check_def Let_def loads_def fun_eq_iff split: option.splits)

lemma healthy_loop_loads [simp]: "loads (snd (healthy_loop w ks acc r)) = loads r"
proof (induction ks arbitrary: acc r)
  case Nil
  show ?case by simp
next
  case (Cons k ks)
  have c: "\<And>r. loads (r\<lparr>clock_reads := Suc (clock_reads r)\<rparr>) = loads r"
    by (simp add: loads_def fun_eq_iff)
  show ?case by (simp add: Let_def Cons.IH c split: option.splits)
qed

lemma get_healthy_nms_in_domain_loads [simp]:
  "loads (snd (get_healthy_nms_in_domain w d r)) = loads r"
  by (simp add: get_healthy_nms_in_domain_def split: option.splits)

lemma selection_loads [simp]:
  "loads (snd (calculate_weighted_selection w nm_ids r)) = loads r"
  "loads (snd (round_robin_selection nm_ids d r)) = loads r"
  "loads (snd (validation_loop w m cs vs r)) = loads r"
  "loads (snd (select_primary w request av r)) = loads r"
  by (simp_all add: loads_def fun_eq_iff)

lemma select_validation_nms_loads [simp]:
  "loads (snd (select_validation_nms w request exclude m r)) = loads r"
  by (simp add: select_validation_nms_def Let_def case_prod_beta)

lemma weighable_frame:
  assumes "capacities r' = capacities r" and "loads r' = loads r"
  shows "weighable r' k = weighable r k"
proof -
  from assms(1) have c: "map_option max_concurrent (nm_registry r' k)
                           = map_option max_concurrent (nm_registry r k)"
    by (simp add: capacities_def fun_eq_iff)
  from assms(2) have l: "map_option current_load (nm_registry r' k)
                           = map_option current_load (nm_registry r k)"
    by (simp add: loads_def fun_eq_iff)
  from c l show ?thesis
    by (cases "nm_registry r k"; cases "nm_registry r' k")
       (simp_all add: weighable_def load_ratio_defined_def)
qed

lemma weighable_registry: "nm_registry r' = nm_registry r \<Longrightarrow> weighable r' k = weighable r k"
  by (simp add: weighable_def)

section \<open>Sample runs\<close>

lemma three_workers_eq:
  "three_workers =
     \<lparr>nm_registry = [''a'' \<mapsto> worker ''a'' MEDICAL, ''b'' \<mapsto> worker ''b'' MEDICAL,
                     ''c'' \<mapsto> worker ''c'' MEDICAL],
      domain_pools = [MEDICAL \<mapsto> [''a'', ''b'', ''c'']],
      round_robin_indices = [MEDICAL \<mapsto> 0],
      health_check_interval = 30, clock_reads = 0, random_draws = 0\<rparr>"
  by (simp add: three_workers_def register_nm_def ADPRouter_init_def worker_def)

lemma three_workers_route:
  "fst (route_request wA normal_request three_workers) =
     Inr \<lparr>primary = Some ''a'', validation = [''b''],
          routing_method = ''round_robin_normal'', error = None, total_available = Some 3\<rparr>"
  by (simp add: three_workers_eq route_request_def route_preferred_def route_in_domain_def normal_request_def
     get_healthy_nms_in_domain_def wA_def worker_def select_primary_def round_robin_selection_def py_index_def
     select_validation_nms_def max_validators_default_def validation_loop.simps calculate_weighted_selection_def
     effective_weight_def int_true_div_def random_uniform_def update_load_def
     increment_primary_def increment_load_def Let_def)

section \<open>Pools and registry\<close>

lemma all_domains_complete: "d \<in> set all_domains"
  by (cases d) (simp_all add: all_domains_def)

lemma pools_registered_iff:
  "pools_registered r \<longleftrightarrow> (\<forall>d. set (pool_of r d) \<subseteq> dom (nm_registry r))"
  using all_domains_complete
  by (auto simp: pools_registered_def list_all_iff)

lemma pools_registered_frame:
  assumes "domain_pools r' = domain_pools r" and "capacities r' = capacities r"
  shows "pools_registered r' = pools_registered r"
  using assms(1) capacities_dom [OF assms(2)]
  by (simp add: pools_registered_iff pool_of_def)

lemma register_nm_registry:
  "nm_registry (snd (register_nm nm r)) = (nm_registry r)(nm_id nm \<mapsto> nm)"
  by (simp add: register_nm_def Let_def split: option.splits)

lemma register_nm_pool:
  "set (pool_of (snd (register_nm nm r)) d)
     = (if d = domain nm then insert (nm_id nm) (set (pool_of r d)) else set (pool_of r d))"
  by (auto simp: register_nm_def Let_def pool_of_def split: option.splits)

lemma register_nm_pools_registered:
  "pools_registered r \<Longrightarrow> pools_registered (snd (register_nm nm r))"
  unfolding pools_registered_iff register_nm_pool register_nm_registry
  by auto

text \<open>
  C10: in every reachable state each worker id in a domain's pool is a key of the registry.
  \<open>register_nm\<close>, \<open>route_request\<close>, \<open>complete_request\<close> and \<open>get_routing_stats\<close> preserve
  this; none of them removes a key of the registry, only \<open>register_nm\<close> changes a pool, and
  the only id it adds is the one it has just registered.
\<close>

theorem pools_are_registered:
  "(reachable w r \<longrightarrow> pools_registered r)
   \<and> (pools_registered r \<longrightarrow>
        pools_registered (snd (register_nm nm r))
        \<and> pools_registered (snd (route_request w request r))
        \<and> pools_registered (snd (complete_request k r))
        \<and> pools_registered (snd (get_routing_stats r)))
   \<and> dom (nm_registry r) \<subseteq> dom (nm_registry (snd (register_nm nm r)))
   \<and> dom (nm_registry (snd (route_request w request r))) = dom (nm_registry r)
   \<and> dom (nm_registry (snd (complete_request k r))) = dom (nm_registry r)
   \<and> dom (nm_registry (snd (get_routing_stats r))) = dom (nm_registry r)
   \<and> domain_pools (snd (route_request w request r)) = domain_pools r
   \<and> domain_pools (snd (complete_request k r)) = domain_pools r
   \<and> domain_pools (snd (get_routing_stats r)) = domain_pools r
   \<and> (\<forall>d. set (pool_of (snd (register_nm nm r)) d) \<subseteq> insert (nm_id nm) (set (pool_of r d)))"
proof -
  have pres: "pools_registered (snd (route_request w' q s)) = pools_registered s"
    "pools_registered (snd (complete_request j s)) = pools_registered s"
    "pools_registered (snd (perform_health_check w' j s)) = pools_registered s" for w' q s j
    by (rule pools_registered_frame; simp)+
  have reach: "pools_registered r" if "reachable w r"
    using that
  proof (induction rule: reachable.induct)
    case reach_init
    show ?case by (simp add: pools_registered_def ADPRouter_init_def pool_of_def all_domains_def)
  next
    case (reach_register r nm)
    then show ?case by (simp add: register_nm_pools_registered)
  qed (simp_all add: pres)
  have doms: "dom (nm_registry (snd (route_request w request r))) = dom (nm_registry r)"
    "dom (nm_registry (snd (complete_request k r))) = dom (nm_registry r)"
    by (rule capacities_dom; simp)+
  have reg: "dom (nm_registry r) \<subseteq> dom (nm_registry (snd (register_nm nm r)))"
    by (auto simp: register_nm_registry)
  have pool: "\<forall>d. set (pool_of (snd (register_nm nm r)) d) \<subseteq> insert (nm_id nm) (set (pool_of r d))"
    by (auto simp: register_nm_pool)
  show ?thesis
    using reach pres register_nm_pools_registered [of r nm] doms reg pool
    by simp
qed

theorem pools_are_registered_witness:
  "reachable wA three_workers \<and> pools_registered three_workers
   \<and> pools_registered (snd (route_request wA normal_request three_workers))"
proof -
  have "reachable wA three_workers"
    unfolding three_workers_def by (intro reachable.intros)
  with pools_are_registered [of wA three_workers _ normal_request]
  show ?thesis by simp
qed

section \<open>Validation set\<close>

lemma route_preferred_validation:
  assumes "route_preferred w request r = Some (Inr dec, r')"
  shows "(\<forall>p. primary dec = Some p \<longrightarrow> p \<notin> set (validation dec))
         \<and> distinct (validation dec)
         \<and> int (length (validation dec)) \<le> max_validators_default"
proof -
  obtain p where p: "preferred_nm_id request = Some p" "primary dec = Some p"
    using assms
    by (auto simp: route_preferred_def case_prod_beta split: option.splits if_splits sum.splits)
  show ?thesis
  proof (cases "require_validation request")
    case False
    with assms p show ?thesis
      by (auto simp: route_preferred_def max_validators_default_def
          split: option.splits if_splits)
  next
    case True
    with assms p
    have "fst (select_validation_nms w request [Some p] max_validators_default r)
            = Inr (validation dec)"
      by (auto simp: route_preferred_def case_prod_beta split: option.splits if_splits sum.splits)
    from select_validation_nms_result [OF this] p(2) show ?thesis
      by (auto simp: max_validators_default_def)
  qed
qed

lemma route_in_domain_validation:
  assumes "fst (route_in_domain w request r) = Inr dec"
  shows "(\<forall>p. primary dec = Some p \<longrightarrow> p \<notin> set (validation dec))
         \<and> distinct (validation dec)
         \<and> int (length (validation dec)) \<le> max_validators_default"
proof -
  obtain av r1 where g: "get_healthy_nms_in_domain w (request_domain request) r = (av, r1)"
    by (cases "get_healthy_nms_in_domain w (request_domain request) r")
  show ?thesis
  proof (cases "av = []")
    case True
    with assms g show ?thesis
      by (auto simp: route_in_domain_def max_validators_default_def)
  next
    case False
    obtain sel r2 where s: "select_primary w request av r1 = (sel, r2)"
      by (cases "select_primary w request av r1")
    from assms g False s obtain pm tag where sel: "sel = Inr (pm, tag)"
      by (cases sel) (auto simp: route_in_domain_def)
    show ?thesis
    proof (cases "require_validation request")
      case False
      with assms g \<open>av \<noteq> []\<close> s sel show ?thesis
        by (auto simp: route_in_domain_def case_prod_beta max_validators_default_def
            split: sum.splits)
    next
      case True
      with assms g \<open>av \<noteq> []\<close> s sel
      have v: "fst (select_validation_nms w request [pm] max_validators_default r2)
                 = Inr (validation dec)" and pd: "primary dec = pm"
        by (auto simp: route_in_domain_def case_prod_beta split: sum.splits)
      from select_validation_nms_result [OF v] pd show ?thesis
        by (auto simp: max_validators_default_def)
    qed
  qed
qed

text \<open>
  C3: the validation list of a decision that \<open>route_request\<close> returns never contains the
  primary, has no duplicates and is no longer than \<open>max_validators\<close> (2 by default), on
  every path and however few candidates there are. The same holds of
  \<open>_select_validation_nms\<close> for any exclusion list and any bound.
\<close>

theorem validation_set_sound:
  "(fst (route_request w request r) = Inr dec \<longrightarrow>
      (\<forall>p. primary dec = Some p \<longrightarrow> p \<notin> set (validation dec))
      \<and> distinct (validation dec)
      \<and> int (length (validation dec)) \<le> max_validators_default)
   \<and> (fst (select_validation_nms w request exclude m r) = Inr out \<longrightarrow>
        (\<forall>k\<in>set out. Some k \<notin> set exclude) \<and> distinct out \<and> int (length out) \<le> max m 0)"
proof (intro conjI impI)
  assume a: "fst (route_request w request r) = Inr dec"
  have "(\<forall>p. primary dec = Some p \<longrightarrow> p \<notin> set (validation dec))
         \<and> distinct (validation dec)
         \<and> int (length (validation dec)) \<le> max_validators_default"
  proof (cases "route_preferred w request r")
    case None
    with a show ?thesis by (simp add: route_request_def route_in_domain_validation)
  next
    case (Some res)
    with a have "route_preferred w request r = Some (Inr dec, snd res)"
      by (cases res) (simp add: route_request_def)
    then show ?thesis by (rule route_preferred_validation)
  qed
  then show "\<forall>p. primary dec = Some p \<longrightarrow> p \<notin> set (validation dec)"
    and "distinct (validation dec)"
    and "int (length (validation dec)) \<le> max_validators_default"
    by simp_all
next
  assume "fst (select_validation_nms w request exclude m r) = Inr out"
  from select_validation_nms_result [OF this]
  show "\<forall>k\<in>set out. Some k \<notin> set exclude" and "distinct out" and "int (length out) \<le> max m 0"
    by simp_all
qed

theorem validation_set_sound_witness:
  "fst (route_request wA normal_request three_workers) =
     Inr \<lparr>primary = Some ''a'', validation = [''b''],
          routing_method = ''round_robin_normal'', error = None, total_available = Some 3\<rparr>
   \<and> ''a'' \<notin> set [''b''] \<and> distinct [''b''] \<and> int (length [''b'']) \<le> max_validators_default"
  using validation_set_sound [of wA normal_request three_workers
      "\<lparr>primary = Some ''a'', validation = [''b''], routing_method = ''round_robin_normal'',
        error = None, total_available = Some 3\<rparr>"]
    three_workers_route
  by simp

section \<open>Cursors of reachable states\<close>

text \<open>Every write of a cursor stores 0 or a remainder, so no reachable state has a negative one.\<close>

lemma cursors_nonneg_iff:
  "cursors_nonneg r \<longleftrightarrow> (\<forall>d i. round_robin_indices r d = Some i \<longrightarrow> 0 \<le> i)"
  using all_domains_complete
  by (auto simp: cursors_nonneg_def list_all_iff split: option.splits)

lemma cursor_step_same: "round_robin_indices r' = round_robin_indices r \<Longrightarrow> cursor_step r r'"
  by (simp add: cursor_step_def)

lemma cursor_step_trans: "cursor_step a b \<Longrightarrow> cursor_step b c \<Longrightarrow> cursor_step a c"
  unfolding cursor_step_def by metis

lemma cursor_step_nonneg: "cursors_nonneg r \<Longrightarrow> cursor_step r r' \<Longrightarrow> cursors_nonneg r'"
  unfolding cursor_step_def cursors_nonneg_iff by (metis option.inject)

lemma round_robin_selection_cursor_step: "cursor_step r (snd (round_robin_selection nm_ids d r))"
  by (auto simp: cursor_step_def round_robin_selection_def Let_def split: sum.splits)

lemma select_primary_cursor_step: "cursor_step r (snd (select_primary w request av r))"
proof -
  let ?rr = "round_robin_selection av (request_domain request) r"
  have a: "cursor_step r (snd ?rr)" by (rule round_robin_selection_cursor_step)
  have b: "\<And>ids s. cursor_step r s \<Longrightarrow> cursor_step r (snd (calculate_weighted_selection w ids s))"
    by (simp add: cursor_step_def)
  have c: "cursor_step r r" by (simp add: cursor_step_same)
  show ?thesis
    using a b [OF a] b [OF b [OF a]] b [OF c]
    by (simp add: select_primary_def Let_def case_prod_beta split: sum.splits option.splits)
qed

lemma route_in_domain_cursor_step: "cursor_step r (snd (route_in_domain w request r))"
proof -
  let ?g = "get_healthy_nms_in_domain w (request_domain request) r"
  let ?sp = "select_primary w request (fst ?g) (snd ?g)"
  have g: "cursor_step r (snd ?g)" by (simp add: cursor_step_same)
  have sp: "cursor_step r (snd ?sp)"
    by (rule cursor_step_trans [OF g select_primary_cursor_step])
  have same: "\<And>s. round_robin_indices s = round_robin_indices (snd ?sp) \<Longrightarrow> cursor_step r s"
    using sp by (simp add: cursor_step_def)
  show ?thesis
    using g sp
    by (auto simp: route_in_domain_def case_prod_beta split: sum.splits intro!: same)
qed

lemma route_request_cursor_step: "cursor_step r (snd (route_request w request r))"
  using route_preferred_frame [of w request r] route_in_domain_cursor_step [of r w request]
  by (auto simp: route_request_def cursor_step_same split: option.splits)

lemma register_nm_cursor_step: "cursor_step r (snd (register_nm nm r))"
  by (auto simp: cursor_step_def register_nm_def Let_def split: option.splits)

lemma reachable_cursors_nonneg: "reachable w r \<Longrightarrow> cursors_nonneg r"
proof (induction rule: reachable.induct)
  case reach_init
  show ?case by (simp add: cursors_nonneg_iff ADPRouter_init_def)
next
  case (reach_register r nm)
  then show ?case using cursor_step_nonneg register_nm_cursor_step by blast
next
  case (reach_route r request)
  then show ?case using cursor_step_nonneg route_request_cursor_step by blast
next
  case (reach_complete r k)
  then show ?case by (simp add: cursors_nonneg_iff)
next
  case (reach_stats r)
  then show ?case by simp
next
  case (reach_health r k)
  then show ?case by (simp add: cursors_nonneg_iff)
qed

section \<open>No candidates\<close>

lemma healthy_loop_unavailable:
  assumes "\<forall>k\<in>set ks. \<forall>nm. nm_registry r k = Some nm \<longrightarrow>
             status nm = UNAVAILABLE
             \<and> (allfail \<or> (\<forall>n. time_at w n - last_health_check nm \<le> health_check_interval r))"
    and "allfail \<longrightarrow> (\<forall>n. random_at w n \<le> 1 / 20)"
  shows "fst (healthy_loop w ks acc r) = acc"
  using assms(1)
proof (induction ks arbitrary: r)
  case Nil
  show ?case by simp
next
  case (Cons k ks)
  show ?case
  proof (cases "nm_registry r k")
    case None
    with Cons show ?thesis by simp
  next
    case (Some nm)
    define r1 where "r1 = r\<lparr>clock_reads := Suc (clock_reads r)\<rparr>"
    have st: "status nm = UNAVAILABLE" using Cons.prems Some by simp
    show ?thesis
    proof (cases "time_at w (clock_reads r) - last_health_check nm > health_check_interval r")
      case False
      have "\<forall>j\<in>set ks. \<forall>nm. nm_registry r1 j = Some nm \<longrightarrow>
             status nm = UNAVAILABLE
             \<and> (allfail \<or> (\<forall>n. time_at w n - last_health_check nm \<le> health_check_interval r1))"
        using Cons.prems by (simp add: r1_def)
      from Cons.IH [OF this] False Some st show ?thesis
        by (simp add: Let_def r1_def)
    next
      case True
      from Cons.prems Some
      have "allfail \<or> (\<forall>n. time_at w n - last_health_check nm \<le> health_check_interval r)"
        by simp
      moreover from True
      have "\<not> time_at w (clock_reads r) - last_health_check nm \<le> health_check_interval r"
        by simp
      ultimately have allfail by blast
      with assms(2) have fail: "\<not> random_at w (random_draws r1) > 1 / 20" by (simp add: not_less)
      define r2 where "r2 = snd (perform_health_check w k r1)"
      have reg2: "nm_registry r2 =
                    (nm_registry r)(k \<mapsto> nm\<lparr>status := UNAVAILABLE,
                                             last_health_check := time_at w (clock_reads r1)\<rparr>)"
        using Some fail by (simp add: r2_def perform_health_check_def r1_def Let_def)
      have "\<forall>j\<in>set ks. \<forall>nm. nm_registry r2 j = Some nm \<longrightarrow>
             status nm = UNAVAILABLE
             \<and> (allfail \<or> (\<forall>n. time_at w n - last_health_check nm \<le> health_check_interval r2))"
        using Cons.prems \<open>allfail\<close> by (auto simp: reg2)
      moreover have "health_check_interval r1 = health_check_interval r"
        by (simp add: r1_def)
      ultimately show ?thesis
        using Cons.IH [of r2] True Some reg2
        by (simp add: Let_def r1_def [symmetric] r2_def [symmetric])
    qed
  qed
qed

lemma one_down_eq:
  "one_down =
     \<lparr>nm_registry = [''a'' \<mapsto> down_worker ''a'' MEDICAL],
      domain_pools = [MEDICAL \<mapsto> [''a'']],
      round_robin_indices = [MEDICAL \<mapsto> 0],
      health_check_interval = 30, clock_reads = 0, random_draws = 0\<rparr>"
  by (simp add: one_down_def register_nm_def ADPRouter_init_def down_worker_def worker_def)

lemma route_preferred_None:
  assumes "\<forall>p nm. preferred_nm_id request = Some p \<and> nm_registry r p = Some nm
             \<longrightarrow> status nm = UNAVAILABLE"
  shows "route_preferred w request r = None"
  using assms by (auto simp: route_preferred_def split: option.splits)

text \<open>
  C6, as the code has it: when the request has no eligible preferred worker (none named,
  or the one named is not registered or is unavailable) and every registered worker of
  the domain's pool is unavailable and stays so through the lazy health refresh (none is
  due for a check, or every check finds the worker unreachable), \<open>route_request\<close> returns,
  without raising, the decision with no primary, the tag \<open>no_available_nms\<close> and the error
  text. An empty or absent pool is the case of no worker at all.
\<close>

theorem no_candidates_decision:
  assumes "\<forall>p nm. preferred_nm_id request = Some p \<and> nm_registry r p = Some nm
             \<longrightarrow> status nm = UNAVAILABLE"
    and "\<forall>k\<in>set (pool_of r (request_domain request)). \<forall>nm. nm_registry r k = Some nm
             \<longrightarrow> status nm = UNAVAILABLE"
    and "(\<forall>n. random_at w n \<le> 1 / 20)
         \<or> (\<forall>k\<in>set (pool_of r (request_domain request)). \<forall>nm. nm_registry r k = Some nm
               \<longrightarrow> (\<forall>n. time_at w n - last_health_check nm \<le> health_check_interval r))"
  shows "fst (route_request w request r) =
           Inr \<lparr>primary = None, validation = [], routing_method = ''no_available_nms'',
                error = Some (''No healthy NMs available in domain ''
                              @ domain_value (request_domain request)),
                total_available = None\<rparr>"
proof -
  let ?d = "request_domain request"
  have loop: "fst (healthy_loop w (pool_of r ?d) [] r) = []"
  proof (rule healthy_loop_unavailable [where allfail = "\<forall>n. random_at w n \<le> 1 / 20"])
    show "\<forall>k\<in>set (pool_of r ?d). \<forall>nm. nm_registry r k = Some nm \<longrightarrow>
            status nm = UNAVAILABLE
            \<and> ((\<forall>n. random_at w n \<le> 1 / 20)
               \<or> (\<forall>n. time_at w n - last_health_check nm \<le> health_check_interval r))"
      using assms(2,3) by blast
    show "(\<forall>n. random_at w n \<le> 1 / 20) \<longrightarrow> (\<forall>n. random_at w n \<le> 1 / 20)" by simp
  qed
  have "fst (get_healthy_nms_in_domain w ?d r) = []"
    using loop by (simp add: get_healthy_nms_in_domain_def pool_of_def split: option.splits)
  then show ?thesis
    using route_preferred_None [OF assms(1), of w]
    by (simp add: route_request_def route_in_domain_def case_prod_beta)
qed

theorem no_candidates_decision_witness:
  "fst (route_request wA normal_request one_down) =
     Inr \<lparr>primary = None, validation = [], routing_method = ''no_available_nms'',
          error = Some ''No healthy NMs available in domain medical'',
          total_available = None\<rparr>"
proof -
  have a: "\<forall>p nm. preferred_nm_id normal_request = Some p \<and> nm_registry one_down p = Some nm
             \<longrightarrow> status nm = UNAVAILABLE"
    by (simp add: normal_request_def)
  have b: "\<forall>k\<in>set (pool_of one_down (request_domain normal_request)).
             \<forall>nm. nm_registry one_down k = Some nm \<longrightarrow> status nm = UNAVAILABLE"
    by (simp add: one_down_eq pool_of_def normal_request_def down_worker_def)
  have c: "(\<forall>n. random_at wA n \<le> 1 / 20)
         \<or> (\<forall>k\<in>set (pool_of one_down (request_domain normal_request)).
               \<forall>nm. nm_registry one_down k = Some nm
               \<longrightarrow> (\<forall>n. time_at wA n - last_health_check nm \<le> health_check_interval one_down))"
    by (simp add: one_down_eq pool_of_def normal_request_def down_worker_def worker_def wA_def)
  from no_candidates_decision [OF a b c] show ?thesis
    by (simp add: normal_request_def)
qed

text \<open>
  C6 as stated fails: a worker stored as unavailable whose last check is older than the
  interval is checked again on the way, and becomes the primary when the check succeeds.
\<close>

theorem no_candidates_counterexample:
  "pool_of one_down MEDICAL = [''a'']
   \<and> map_option status (nm_registry one_down ''a'') = Some UNAVAILABLE
   \<and> request_domain normal_request = MEDICAL
   \<and> preferred_nm_id normal_request = None
   \<and> fst (route_request wLate normal_request one_down) =
       Inr \<lparr>primary = Some ''a'', validation = [], routing_method = ''round_robin_normal'',
            error = None, total_available = Some 1\<rparr>"
  by (simp add: one_down_eq pool_of_def down_worker_def worker_def normal_request_def wLate_def
      route_request_def route_preferred_def route_in_domain_def get_healthy_nms_in_domain_def
      perform_health_check_def select_primary_def round_robin_selection_def py_index_def
      select_validation_nms_def max_validators_default_def update_load_def
      increment_primary_def increment_load_def Let_def)

section \<open>Unrecognized priority\<close>

lemma validation_loop_defined:
  assumes "\<forall>k\<in>set cs. weighable r k"
  shows "\<exists>out. fst (validation_loop w m cs vs r) = Inr out"
  using assms
proof (induction w m cs vs r rule: validation_loop.induct)
  case (1 w m cs vs r)
  obtain res r1 where sel: "calculate_weighted_selection w cs r = (res, r1)"
    by (cases "calculate_weighted_selection w cs r")
  from calculate_weighted_selection_defined [OF "1.prems", of w] sel
  obtain b where res: "res = Inr b" by auto
  have reg: "nm_registry r1 = nm_registry r"
    using calculate_weighted_selection_frame(1) [of w cs r] sel by simp
  show ?case
  proof (cases "int (length vs) < min m (int (length cs))")
    case False
    then show ?thesis by (subst validation_loop.simps) auto
  next
    case True
    note run = True
    show ?thesis
    proof (cases b)
      case None
      with run sel res show ?thesis by (subst validation_loop.simps) simp
    next
      case (Some v)
      have mem: "v \<in> set cs"
        using calculate_weighted_selection_member [of w cs r v] sel res Some by simp
      show ?thesis
      proof (cases "v \<noteq> [] \<and> v \<notin> set vs")
        case False
        with run sel res Some show ?thesis by (subst validation_loop.simps) auto
      next
        case True
        have "\<forall>k\<in>set (remove1 v cs). weighable r1 k"
          using "1.prems" weighable_registry [OF reg] set_remove1_subset [of v cs] by auto
        from "1.IH" [OF run sel [symmetric] res Some True mem this]
        show ?thesis
          using run sel res Some True mem by (subst validation_loop.simps) simp
      qed
    qed
  qed
qed

lemma pool_weighable_frame:
  assumes "domain_pools r' = domain_pools r" and "capacities r' = capacities r"
    and "loads r' = loads r"
    and "\<forall>k\<in>set (pool_of r d). nm_registry r k \<noteq> None \<longrightarrow> weighable r k"
  shows "\<forall>k\<in>set (pool_of r' d). nm_registry r' k \<noteq> None \<longrightarrow> weighable r' k"
proof -
  have "pool_of r' d = pool_of r d" using assms(1) by (simp add: pool_of_def)
  moreover have "\<And>k. nm_registry r' k \<noteq> None \<longleftrightarrow> nm_registry r k \<noteq> None"
    using capacities_dom [OF assms(2)] by (auto simp: dom_def)
  ultimately show ?thesis
    using assms(4) weighable_frame [OF assms(2,3)] by simp
qed

lemma select_validation_nms_defined:
  assumes "\<forall>k\<in>set (pool_of r (request_domain request)). nm_registry r k \<noteq> None \<longrightarrow> weighable r k"
  shows "\<exists>out. fst (select_validation_nms w request exclude m r) = Inr out"
proof -
  let ?g = "get_healthy_nms_in_domain w (request_domain request) r"
  have c: "capacities (snd ?g) = capacities r" and l: "loads (snd ?g) = loads r" by simp_all
  have "set (fst ?g) \<subseteq> set (pool_of r (request_domain request)) \<inter> dom (nm_registry r)"
    by (rule get_healthy_nms_in_domain_result)
  with assms have "\<forall>k\<in>set (fst ?g). weighable r k" by blast
  then have "\<forall>k\<in>set (filter (\<lambda>k. Some k \<notin> set exclude) (fst ?g)). weighable (snd ?g) k"
    using weighable_frame [OF c l] by simp
  from validation_loop_defined [OF this] show ?thesis
    by (simp add: select_validation_nms_def case_prod_beta Let_def)
qed

lemma update_load_defined:
  "p \<in> dom (nm_registry r) \<Longrightarrow> fst (update_load (Some p) vs r) = Inr ()"
  by (auto simp: update_load_def increment_primary_def)

lemma select_primary_normal:
  assumes "priority request \<noteq> ''urgent''" and "priority request \<noteq> ''high''"
  shows "select_primary w request av r =
           (case round_robin_selection av (request_domain request) r of
              (Inl e, r1) \<Rightarrow> (Inl e, r1)
            | (Inr primary_nm, r1) \<Rightarrow> (Inr (primary_nm, ''round_robin_normal''), r1))"
  using assms by (simp add: select_primary_def)

lemma route_in_domain_decision:
  assumes "fst (route_in_domain w request r) = Inr dec"
    and "get_healthy_nms_in_domain w (request_domain request) r = (av, r1)"
    and "av \<noteq> []"
  shows "\<exists>r2. select_primary w request av r1 = (Inr (primary dec, routing_method dec), r2)"
proof -
  obtain sel r2 where s: "select_primary w request av r1 = (sel, r2)"
    by (cases "select_primary w request av r1")
  from assms s obtain pm tag where sel: "sel = Inr (pm, tag)"
    by (cases sel) (auto simp: route_in_domain_def)
  define v where "v = (if require_validation request
                       then select_validation_nms w request [pm] max_validators_default r2
                       else (Inr [], r2))"
  obtain x r3 where vx: "v = (x, r3)" by (cases v)
  from assms s sel vx obtain vs where x: "x = Inr vs"
    by (cases x) (auto simp: route_in_domain_def v_def [symmetric])
  obtain y r4 where ul: "update_load pm vs r3 = (y, r4)" by (cases "update_load pm vs r3")
  from assms s sel vx x ul have "primary dec = pm \<and> routing_method dec = tag"
    by (cases y) (auto simp: route_in_domain_def v_def [symmetric])
  with s sel show ?thesis by simp
qed

lemma route_in_domain_normal:
  assumes "priority request \<noteq> ''urgent''" and "priority request \<noteq> ''high''"
    and "\<forall>k\<in>set (pool_of r (request_domain request)). nm_registry r k \<noteq> None \<longrightarrow> weighable r k"
    and "\<forall>i. round_robin_indices r (request_domain request) = Some i \<longrightarrow> 0 \<le> i"
    and "get_healthy_nms_in_domain w (request_domain request) r = (av, r1)"
    and "av \<noteq> []"
  shows "\<exists>dec. fst (route_in_domain w request r) = Inr dec"
proof -
  let ?d = "request_domain request"
  have c1: "capacities r1 = capacities r" and i1: "round_robin_indices r1 = round_robin_indices r"
    and l1: "loads r1 = loads r" and p1: "domain_pools r1 = domain_pools r"
    using get_healthy_nms_in_domain_frame [of w ?d r] get_healthy_nms_in_domain_loads [of w ?d r]
      assms(5) by simp_all
  have av: "set av \<subseteq> dom (nm_registry r1)"
    using get_healthy_nms_in_domain_result [of w ?d r] assms(5) capacities_dom [OF c1] by auto
  define c where "c = (case round_robin_indices r1 ?d of None \<Rightarrow> 0 | Some i \<Rightarrow> i)"
  have c0: "0 \<le> c" using assms(4) by (simp add: c_def i1 split: option.splits)
  define pos where "pos = (if int (length av) \<le> c then 0 else nat c)"
  have posl: "pos < length av" using assms(6) c0 by (auto simp: pos_def)
  define r2 where "r2 = r1\<lparr>round_robin_indices :=
                          (round_robin_indices r1)(?d \<mapsto> (int pos + 1) mod int (length av))\<rparr>"
  have rr: "round_robin_selection av ?d r1 = (Inr (Some (av ! pos)), r2)"
    unfolding r2_def by (rule round_robin_selection_step [OF assms(6) c_def c0 pos_def])
  have sp: "select_primary w request av r1 = (Inr (Some (av ! pos), ''round_robin_normal''), r2)"
    using assms(1,2) rr by (simp add: select_primary_def)
  have c2: "capacities r2 = capacities r" using c1 by (simp add: r2_def capacities_def fun_eq_iff)
  have l2: "loads r2 = loads r" using l1 by (simp add: r2_def loads_def fun_eq_iff)
  have p2: "domain_pools r2 = domain_pools r" using p1 by (simp add: r2_def)
  note nz2 = pool_weighable_frame [OF p2 c2 l2 assms(3)]
  define v where "v = (if require_validation request
                       then select_validation_nms w request [Some (av ! pos)] max_validators_default r2
                       else (Inr [], r2))"
  have "\<exists>out. fst v = Inr out"
    using select_validation_nms_defined [OF nz2] by (simp add: v_def)
  then obtain out r3 where out: "v = (Inr out, r3)" by (cases v) auto
  have "capacities (snd v) = capacities r" using c2 by (simp add: v_def)
  with out have c3: "capacities r3 = capacities r" by simp
  have "av ! pos \<in> set av" using posl by simp
  with av have "av ! pos \<in> dom (nm_registry r1)" by blast
  then have "av ! pos \<in> dom (nm_registry r3)"
    using capacities_dom [OF c3] capacities_dom [OF c1] by simp
  from update_load_defined [OF this, of out]
  obtain r4 where ul: "update_load (Some (av ! pos)) out r3 = (Inr (), r4)"
    by (cases "update_load (Some (av ! pos)) out r3") auto
  have "fst (route_in_domain w request r) =
          Inr \<lparr>primary = Some (av ! pos), validation = out,
               routing_method = ''round_robin_normal'', error = None,
               total_available = Some (length av)\<rparr>"
  proof (cases "require_validation request")
    case True
    with out have "select_validation_nms w request [Some (av ! pos)] max_validators_default r2
                     = (Inr out, r3)"
      by (simp add: v_def)
    with True assms(5,6) sp ul show ?thesis by (simp add: route_in_domain_def)
  next
    case False
    with out have "out = []" "r3 = r2" by (simp_all add: v_def)
    with False assms(5,6) sp ul show ?thesis by (simp add: route_in_domain_def)
  qed
  then show ?thesis by blast
qed

lemma select_validation_nms_priority [simp]:
  "select_validation_nms w (request\<lparr>priority := p\<rparr>) exclude m r
     = select_validation_nms w request exclude m r"
  by (simp add: select_validation_nms_def)

lemma route_preferred_priority [simp]:
  "route_preferred w (request\<lparr>priority := p\<rparr>) r = route_preferred w request r"
  by (simp add: route_preferred_def cong: option.case_cong if_cong)

lemma select_primary_unrecognized:
  assumes "priority request \<noteq> ''urgent''" and "priority request \<noteq> ''high''"
  shows "select_primary w request av r = select_primary w (request\<lparr>priority := ''normal''\<rparr>) av r"
  using assms by (simp add: select_primary_def)

lemma route_in_domain_unrecognized:
  assumes "priority request \<noteq> ''urgent''" and "priority request \<noteq> ''high''"
  shows "route_in_domain w request r = route_in_domain w (request\<lparr>priority := ''normal''\<rparr>) r"
  unfolding route_in_domain_def
  by (simp add: select_primary_unrecognized [OF assms] case_prod_beta
      cong: if_cong sum.case_cong)

lemma route_preferred_defined:
  assumes "\<forall>k\<in>set (pool_of r (request_domain request)). nm_registry r k \<noteq> None \<longrightarrow> weighable r k"
    and "route_preferred w request r = Some res"
  shows "\<exists>dec. fst res = Inr dec"
proof (cases "preferred_nm_id request")
  case None
  with assms(2) show ?thesis by (simp add: route_preferred_def)
next
  case (Some p)
  obtain x r1 where
      sv: "select_validation_nms w request [Some p] max_validators_default r = (x, r1)"
    by (cases "select_validation_nms w request [Some p] max_validators_default r")
  with select_validation_nms_defined [OF assms(1), of w "[Some p]" max_validators_default]
  obtain out where "x = Inr out" by auto
  with assms(2) Some sv show ?thesis
    by (auto simp: route_preferred_def split: option.splits if_splits)
qed

lemma mixed_capacity_eq:
  "mixed_capacity =
     \<lparr>nm_registry = [''a'' \<mapsto> worker ''a'' MEDICAL,
                     ''b'' \<mapsto> (worker ''b'' MEDICAL)\<lparr>max_concurrent := 0\<rparr>],
      domain_pools = [MEDICAL \<mapsto> [''a'', ''b'']],
      round_robin_indices = [MEDICAL \<mapsto> 0],
      health_check_interval = 30, clock_reads = 0, random_draws = 0\<rparr>"
  by (simp add: mixed_capacity_def register_nm_def ADPRouter_init_def worker_def)

text \<open>
  C7, as the code has it: a request whose priority is neither \<open>urgent\<close> nor \<open>high\<close> is
  routed exactly as the same request with priority \<open>normal\<close>: same decision or same
  exception, same state; so it never fails on account of its priority. Whenever it
  returns a decision from the by-priority branch, the primary is the round-robin pick
  among all the healthy candidates and the tag is \<open>round_robin_normal\<close>. It returns a
  decision, without raising, when the quotient of line 128 can be computed for every
  registered worker of the domain's pool and the cursor of the domain is not negative.
\<close>

theorem unrecognized_priority_is_normal:
  assumes "priority request \<noteq> ''urgent''" and "priority request \<noteq> ''high''"
  shows "route_request w request r = route_request w (request\<lparr>priority := ''normal''\<rparr>) r
         \<and> (\<forall>dec. route_preferred w request r = None
                  \<and> fst (get_healthy_nms_in_domain w (request_domain request) r) \<noteq> []
                  \<and> fst (route_request w request r) = Inr dec \<longrightarrow>
               Inr (primary dec) =
                 fst (round_robin_selection
                        (fst (get_healthy_nms_in_domain w (request_domain request) r))
                        (request_domain request)
                        (snd (get_healthy_nms_in_domain w (request_domain request) r)))
               \<and> routing_method dec = ''round_robin_normal'')
         \<and> ((\<forall>k\<in>set (pool_of r (request_domain request)).
                 nm_registry r k \<noteq> None \<longrightarrow> weighable r k)
              \<and> (\<forall>i. round_robin_indices r (request_domain request) = Some i \<longrightarrow> 0 \<le> i) \<longrightarrow>
             (\<exists>dec. fst (route_request w request r) = Inr dec))"
proof (intro conjI allI impI)
  let ?d = "request_domain request"
  let ?g = "get_healthy_nms_in_domain w ?d r"
  have g: "?g = (fst ?g, snd ?g)" by simp
  show "route_request w request r = route_request w (request\<lparr>priority := ''normal''\<rparr>) r"
    by (simp add: route_request_def route_in_domain_unrecognized [OF assms]
        cong: option.case_cong)
  {
    fix dec
    assume "route_preferred w request r = None \<and> fst ?g \<noteq> []
              \<and> fst (route_request w request r) = Inr dec"
    then have None: "route_preferred w request r = None" and ne: "fst ?g \<noteq> []"
      and rq: "fst (route_request w request r) = Inr dec"
      by simp_all
    from rq None have dec: "fst (route_in_domain w request r) = Inr dec"
      by (simp add: route_request_def)
    from route_in_domain_decision [OF dec g ne] obtain r2 where
        "select_primary w request (fst ?g) (snd ?g) = (Inr (primary dec, routing_method dec), r2)"
      by blast
    then have "Inr (primary dec) = fst (round_robin_selection (fst ?g) ?d (snd ?g))
               \<and> routing_method dec = ''round_robin_normal''"
      unfolding select_primary_normal [OF assms]
      by (auto simp: case_prod_beta split: sum.splits)
    then show "Inr (primary dec) = fst (round_robin_selection (fst ?g) ?d (snd ?g))"
      and "routing_method dec = ''round_robin_normal''"
      by simp_all
  }
  assume "(\<forall>k\<in>set (pool_of r ?d). nm_registry r k \<noteq> None \<longrightarrow> weighable r k)
          \<and> (\<forall>i. round_robin_indices r ?d = Some i \<longrightarrow> 0 \<le> i)"
  then have pw: "\<forall>k\<in>set (pool_of r ?d). nm_registry r k \<noteq> None \<longrightarrow> weighable r k"
    and cu: "\<forall>i. round_robin_indices r ?d = Some i \<longrightarrow> 0 \<le> i"
    by simp_all
  show "\<exists>dec. fst (route_request w request r) = Inr dec"
  proof (cases "route_preferred w request r")
    case (Some res)
    with route_preferred_defined [OF pw Some] show ?thesis
      by (simp add: route_request_def)
  next
    case None
    show ?thesis
    proof (cases "fst ?g = []")
      case True
      with None show ?thesis
        by (simp add: route_request_def route_in_domain_def case_prod_beta)
    next
      case False
      from route_in_domain_normal [OF assms pw cu g False] None show ?thesis
        by (simp add: route_request_def)
    qed
  qed
qed

theorem unrecognized_priority_is_normal_witness:
  "route_request wA low_request three_workers = route_request wA normal_request three_workers
   \<and> fst (route_request wA low_request three_workers) =
       Inr \<lparr>primary = Some ''a'', validation = [''b''],
            routing_method = ''round_robin_normal'', error = None, total_available = Some 3\<rparr>
   \<and> (\<exists>dec. fst (route_request wA low_request three_workers) = Inr dec)"
proof -
  have a: "priority low_request \<noteq> ''urgent''" and b: "priority low_request \<noteq> ''high''"
    by (simp_all add: low_request_def)
  have c: "\<forall>k\<in>set (pool_of three_workers (request_domain low_request)).
             nm_registry three_workers k \<noteq> None \<longrightarrow> weighable three_workers k"
    by (simp add: three_workers_eq pool_of_def low_request_def normal_request_def
        weighable_def load_ratio_defined_def worker_def)
  have d: "\<forall>i. round_robin_indices three_workers (request_domain low_request) = Some i \<longrightarrow> 0 \<le> i"
    by (simp add: three_workers_eq)
  have e: "low_request\<lparr>priority := ''normal''\<rparr> = normal_request"
    by (simp add: low_request_def normal_request_def)
  from unrecognized_priority_is_normal [OF a b, of wA three_workers] c d three_workers_route
  show ?thesis by (simp add: e)
qed

text \<open>
  C7 as stated fails: on a router with a worker of capacity 10 and a worker of capacity 0,
  a request of priority \<open>low\<close> gets the first as primary by round-robin and then raises
  \<open>ZeroDivisionError\<close> at line 128, when the second is weighed as a validation candidate.
  The state is reachable by two calls of \<open>register_nm\<close>.
\<close>

theorem unrecognized_priority_counterexample:
  "reachable wA mixed_capacity
   \<and> priority low_request = ''low''
   \<and> fst (route_request wA low_request mixed_capacity) = Inl ZeroDivisionError"
proof -
  have "reachable wA mixed_capacity"
    unfolding mixed_capacity_def by (intro reachable.intros)
  then show ?thesis
    by (simp add: mixed_capacity_eq low_request_def normal_request_def route_request_def
        route_preferred_def route_in_domain_def get_healthy_nms_in_domain_def wA_def worker_def
        select_primary_def round_robin_selection_def py_index_def select_validation_nms_def
        max_validators_default_def validation_loop.simps calculate_weighted_selection_def
        effective_weight_def int_true_div_def Let_def)
qed

section \<open>Load accounting\<close>

text \<open>
  On the by-priority path the loads of the primary and of the validation worker go up by
  one: here from 0 to 1 for \<open>a\<close> and \<open>b\<close>, while \<open>c\<close>, which was not chosen, stays at 0.
\<close>

lemma by_priority_route_counts_load:
  "map_option current_load
     (nm_registry (snd (route_request wA normal_request three_workers)) ''a'') = Some 1
   \<and> map_option current_load
       (nm_registry (snd (route_request wA normal_request three_workers)) ''b'') = Some 1
   \<and> map_option current_load
       (nm_registry (snd (route_request wA normal_request three_workers)) ''c'') = Some 0"
  by (simp add: three_workers_eq route_request_def route_preferred_def route_in_domain_def
      normal_request_def get_healthy_nms_in_domain_def wA_def worker_def select_primary_def
      round_robin_selection_def py_index_def select_validation_nms_def
      max_validators_default_def validation_loop.simps calculate_weighted_selection_def
      effective_weight_def int_true_div_def random_uniform_def update_load_def
      increment_primary_def increment_load_def Let_def)

lemma increment_load_loads:
  "loads (increment_load j r) k = map_option (\<lambda>l. l + (if k = j then 1 else 0)) (loads r k)"
  by (cases "nm_registry r k") (auto simp: increment_load_def loads_def split: option.splits)

lemma fold_increment_load_loads:
  "distinct vs \<Longrightarrow>
   loads (fold increment_load vs r) k
     = map_option (\<lambda>l. l + (if k \<in> set vs then 1 else 0)) (loads r k)"
proof (induction vs arbitrary: r)
  case Nil
  show ?case by (simp add: option.map_ident)
next
  case (Cons v vs)
  then show ?case
    by (cases "loads r k") (auto simp: increment_load_loads)
qed

lemma update_load_loads:
  assumes "distinct vs" and "p \<notin> set vs" and "p \<noteq> []"
    and "fst (update_load (Some p) vs r) = Inr u"
  shows "loads (snd (update_load (Some p) vs r)) k
           = map_option (\<lambda>l. l + (if k = p \<or> k \<in> set vs then 1 else 0)) (loads r k)"
proof -
  from assms(3,4) have "snd (update_load (Some p) vs r) = fold increment_load vs (increment_load p r)"
    by (auto simp: update_load_def increment_primary_def split: option.splits)
  then show ?thesis
    using assms(2)
    by (cases "loads r k") (auto simp: fold_increment_load_loads [OF assms(1)] increment_load_loads)
qed

text \<open>
  The load update of lines 231 to 237 in general: when \<open>route_request\<close> goes past the
  preferred worker and returns a decision with a primary (whose id is not the empty
  string, which line 232 takes for no primary), the load of the primary and of every
  validation worker is one more than before, and every other load is as before.
\<close>

lemma by_priority_load_accounting:
  assumes "route_preferred w request r = None"
    and "route_request w request r = (Inr dec, r')"
    and "primary dec = Some p" and "p \<noteq> []"
  shows "loads r' k
           = map_option (\<lambda>l. l + (if k = p \<or> k \<in> set (validation dec) then 1 else 0)) (loads r k)"
proof -
  let ?d = "request_domain request"
  from assms(1,2) have rid: "route_in_domain w request r = (Inr dec, r')"
    by (simp add: route_request_def)
  obtain av r1 where g: "get_healthy_nms_in_domain w ?d r = (av, r1)"
    by (cases "get_healthy_nms_in_domain w ?d r")
  have l1: "loads r1 = loads r" using get_healthy_nms_in_domain_loads [of w ?d r] g by simp
  from rid g assms(3) have ne: "av \<noteq> []"
    by (auto simp: route_in_domain_def)
  obtain sel r2 where s: "select_primary w request av r1 = (sel, r2)"
    by (cases "select_primary w request av r1")
  have l2: "loads r2 = loads r" using selection_loads(4) [of w request av r1] s l1 by simp
  from rid g ne s obtain pm tag where sel: "sel = Inr (pm, tag)"
    by (cases sel) (auto simp: route_in_domain_def)
  define v where "v = (if require_validation request
                       then select_validation_nms w request [pm] max_validators_default r2
                       else (Inr [], r2))"
  obtain x r3 where vx: "v = (x, r3)" by (cases v)
  from rid g ne s sel vx obtain vs where x: "x = Inr vs"
    by (cases x) (auto simp: route_in_domain_def v_def [symmetric])
  have "loads (snd v) = loads r2" by (simp add: v_def)
  with vx l2 have l3: "loads r3 = loads r" by simp
  obtain y r4 where ul: "update_load pm vs r3 = (y, r4)" by (cases "update_load pm vs r3")
  from rid g ne s sel vx x ul
  have dec: "y = Inr ()" "dec = \<lparr>primary = pm, validation = vs, routing_method = tag, error = None,
                total_available = Some (length av)\<rparr>" "r' = r4"
    by (cases y; auto simp: route_in_domain_def v_def [symmetric])+
  with assms(3) have pm: "pm = Some p" by simp
  have vs: "distinct vs \<and> p \<notin> set vs"
  proof (cases "require_validation request")
    case True
    with vx x have "fst (select_validation_nms w request [Some p] max_validators_default r2) = Inr vs"
      by (simp add: v_def pm)
    from select_validation_nms_result [OF this] show ?thesis by auto
  next
    case False
    with vx x show ?thesis by (simp add: v_def)
  qed
  from update_load_loads [of vs p r3 "()" k] vs assms(4) ul dec(1) pm
  have "loads r4 k = map_option (\<lambda>l. l + (if k = p \<or> k \<in> set vs then 1 else 0)) (loads r3 k)"
    by simp
  with dec l3 show ?thesis by simp
qed

text \<open>
  On the same path, completing once a worker that the decision names gives it back the
  load it had before the call, when that load was not negative.
\<close>

lemma by_priority_round_trip:
  assumes "route_preferred w request r = None"
    and "route_request w request r = (Inr dec, r')"
    and "primary dec = Some p" and "p \<noteq> []"
    and "k = p \<or> k \<in> set (validation dec)"
    and "loads r k = Some l" and "0 \<le> l"
  shows "loads (snd (complete_request k r')) k = Some l"
proof -
  from by_priority_load_accounting [OF assms(1-4), of k] assms(5,6)
  have "loads r' k = Some (l + 1)" by simp
  with assms(7) show ?thesis
    by (auto simp: complete_request_def loads_def split: option.splits)
qed

text \<open>
  C1 at a request that names a healthy preferred worker: the decision has the primary \<open>a\<close>
  and the validation worker \<open>b\<close>, and \<open>route_request\<close> returns at line 181 with the loads of
  both still at 0; the load update of lines 231 to 237 is never reached.
\<close>

theorem preferred_route_skips_load:
  "fst (route_request wA preferred_request three_workers) =
     Inr \<lparr>primary = Some ''a'', validation = [''b''],
          routing_method = ''preferred_with_validation'', error = None,
          total_available = None\<rparr>
   \<and> map_option current_load (nm_registry three_workers ''a'') = Some 0
   \<and> map_option current_load (nm_registry three_workers ''b'') = Some 0
   \<and> map_option current_load
       (nm_registry (snd (route_request wA preferred_request three_workers)) ''a'') = Some 0
   \<and> map_option current_load
       (nm_registry (snd (route_request wA preferred_request three_workers)) ''b'') = Some 0"
  by (simp add: three_workers_eq route_request_def route_preferred_def
      preferred_request_def normal_request_def get_healthy_nms_in_domain_def wA_def worker_def
      select_validation_nms_def max_validators_default_def validation_loop.simps
      calculate_weighted_selection_def effective_weight_def int_true_div_def
      random_uniform_def Let_def)

text \<open>
  C2 at the same early return: the worker \<open>a\<close> carries the load 1 before the call, the
  preferred route leaves it at 1, and \<open>complete_request\<close> then takes it down to 0, which is
  not the load before the call.
\<close>

theorem preferred_route_complete_not_inverse:
  "fst (route_request wA preferred_only_request one_busy) =
     Inr \<lparr>primary = Some ''a'', validation = [], routing_method = ''preferred_only'',
          error = None, total_available = None\<rparr>
   \<and> map_option current_load (nm_registry one_busy ''a'') = Some 1
   \<and> map_option current_load
       (nm_registry (snd (route_request wA preferred_only_request one_busy)) ''a'') = Some 1
   \<and> map_option current_load
       (nm_registry (snd (complete_request ''a''
          (snd (route_request wA preferred_only_request one_busy)))) ''a'') = Some 0"
  by (simp add: one_busy_def register_nm_def ADPRouter_init_def worker_def route_request_def
      route_preferred_def preferred_only_request_def preferred_request_def normal_request_def
      complete_request_def)

section \<open>Overall health\<close>

lemma moved_worker_reachable: "reachable w moved_worker"
  unfolding moved_worker_def by (intro reachable.intros)

text \<open>
  C8 at a worker registered under a second domain: \<open>register_nm\<close> replaces the record but
  leaves the id in the pool of the first domain, the healthy count adds up the pools and
  counts the worker twice, and the overall health of a registry with one healthy worker
  is 2. The state is reachable by two calls of \<open>register_nm\<close>.
\<close>

theorem overall_health_double_counts:
  "dom (nm_registry moved_worker) = {''a''}
   \<and> map_option status (nm_registry moved_worker ''a'') = Some HEALTHY
   \<and> pool_of moved_worker MEDICAL = [''a'']
   \<and> pool_of moved_worker CARDIOLOGY = [''a'']
   \<and> total_nms (fst (get_routing_stats moved_worker)) = 1
   \<and> overall_health (fst (get_routing_stats moved_worker)) = 2"
  by (simp add: moved_worker_def register_nm_def ADPRouter_init_def worker_def pool_of_def
      get_routing_stats_def domain_stats_def count_status_def all_domains_def Let_def)

end
